theory Spec2Isabelle
  imports Complex_Main "HOL-Library.Sublist"
begin

section \<open>Python values, errors and strings\<close>

text \<open>
  The module \<^verbatim>\<open>PyMEMENTO/gmx_util.py\<close> drives GROMACS and MDAnalysis from Python.
  Its own statements are embedded here as HOL functions. Conventions:
  \<^item> an exception is a value \<open>Inl e\<close> of a sum type, a normal return is \<open>Inr v\<close>;
  \<^item> a Python string is a \<open>string\<close>, one \<open>char\<close> for each character of an ASCII
    text, which is what the paths, the selections and the box lines of the module
    are; the content of a file is the list of its bytes, and a text that was read
    from a file may hold bytes beyond ASCII, the UTF-8 encoding of its other
    characters;
  \<^item> a text file is opened as the module opens it, with the default arguments of
    \<^verbatim>\<open>open\<close>, on a POSIX system whose encoding is UTF-8: reading decodes the bytes
    (and raises on bytes that are not UTF-8) and gives every line end, LF, CRLF or
    CR, as LF; writing encodes the characters and changes none;
  \<^item> Python floats and numpy coordinates are modelled as real numbers: arithmetic is
    exact, and floating-point rounding is outside the model;
  \<^item> the external collaborators (the GROMACS programs, the selection language of
    MDAnalysis, \<^verbatim>\<open>float()\<close> and \<^verbatim>\<open>str()\<close> on floats, \<^verbatim>\<open>int()\<close> on text beyond
    ASCII) are parameters of the functions that call them.
\<close>

datatype py_error =
    ValueError string
  | IndexError
  | FileNotFoundError
  | ZeroDivisionError
  | UnicodeDecodeError

definition LF :: char where
  "LF = CHR 0x0A"

definition CR :: char where
  "CR = CHR 0x0D"

definition byte :: "char \<Rightarrow> nat" where
  "byte c = of_char c"

text \<open>\<^verbatim>\<open>sub in s\<close> on strings.\<close>

fun contains :: "string \<Rightarrow> string \<Rightarrow> bool" where
  "contains sub [] = (sub = [])"
| "contains sub (c # cs) = (prefix sub (c # cs) \<or> contains sub cs)"

text \<open>
  \<^verbatim>\<open>s.split(sep)\<close> for a non-empty separator: the pieces between the occurrences of
  \<open>sep\<close>, found from left to right. (Python raises on an empty separator; the module
  only splits at constant, non-empty separators.)
\<close>

function py_split_acc :: "string \<Rightarrow> string \<Rightarrow> string \<Rightarrow> string list" where
  "py_split_acc sep cur [] = [rev cur]"
| "py_split_acc sep cur (c # cs) =
     (if sep \<noteq> [] \<and> prefix sep (c # cs)
      then rev cur # py_split_acc sep [] (drop (length sep) (c # cs))
      else py_split_acc sep (c # cur) cs)"
  by pat_completeness auto
termination
  by (relation "measure (\<lambda>(sep, cur, s). length s)") auto

definition py_split :: "string \<Rightarrow> string \<Rightarrow> string list" where
  "py_split sep s = py_split_acc sep [] s"

text \<open>
  The characters \<^verbatim>\<open>str.isspace\<close> accepts in ASCII: tab, LF, VT, FF, CR, the four
  separators 0x1C-0x1F and the space.
\<close>

definition is_space :: "char \<Rightarrow> bool" where
  "is_space c = (c \<in> set [CHR 0x09, CHR 0x0A, CHR 0x0B, CHR 0x0C, CHR 0x0D,
                           CHR 0x1C, CHR 0x1D, CHR 0x1E, CHR 0x1F, CHR 0x20])"

text \<open>\<^verbatim>\<open>s.split()\<close>: the maximal runs of non-space characters, in order.\<close>

fun split_ws_acc :: "string \<Rightarrow> string \<Rightarrow> string list" where
  "split_ws_acc cur [] = (if cur = [] then [] else [rev cur])"
| "split_ws_acc cur (c # cs) =
     (if is_space c
      then (if cur = [] then split_ws_acc [] cs else rev cur # split_ws_acc [] cs)
      else split_ws_acc (c # cur) cs)"

definition split_ws :: "string \<Rightarrow> string list" where
  "split_ws s = split_ws_acc [] s"

text \<open>
  The characters \<^verbatim>\<open>int\<close> skips around a literal: tab, LF, VT, FF, CR and the space
  (the separators 0x1C-0x1F are not among them).
\<close>

definition is_int_space :: "char \<Rightarrow> bool" where
  "is_int_space c = (c \<in> set [CHR 0x09, CHR 0x0A, CHR 0x0B, CHR 0x0C, CHR 0x0D, CHR 0x20])"

definition int_strip :: "string \<Rightarrow> string" where
  "int_strip s = rev (dropWhile is_int_space (rev (dropWhile is_int_space s)))"

definition is_ascii :: "char \<Rightarrow> bool" where
  "is_ascii c = (byte c < 0x80)"

definition is_digit :: "char \<Rightarrow> bool" where
  "is_digit c = (c \<in> set ''0123456789'')"

definition digit_val :: "char \<Rightarrow> nat" where
  "digit_val c = of_char c - 48"

fun adjacent_underscores :: "string \<Rightarrow> bool" where
  "adjacent_underscores (a # b # cs) =
     ((a = CHR ''_'' \<and> b = CHR ''_'') \<or> adjacent_underscores (b # cs))"
| "adjacent_underscores _ = False"

definition invalid_literal :: py_error where
  "invalid_literal = ValueError ''invalid literal for int() with base 10''"

definition exceeds_limit :: py_error where
  "exceeds_limit = ValueError ''Exceeds the limit (4300 digits) for integer string conversion''"

text \<open>
  The digits of an integer literal: decimal digits, with single underscores allowed
  between digits; a literal of more than 4300 digits is refused (the limit that
  Python has by default since version 3.11).
\<close>

definition py_digits :: "string \<Rightarrow> py_error + nat" where
  "py_digits s =
     (if s = [] \<or> hd s = CHR ''_'' \<or> last s = CHR ''_'' \<or> adjacent_underscores s
         \<or> \<not> list_all (\<lambda>c. is_digit c \<or> c = CHR ''_'') s
      then Inl invalid_literal
      else if 4300 < length (filter is_digit s) then Inl exceeds_limit
      else Inr (foldl (\<lambda>a c. 10 * a + digit_val c) 0 (filter is_digit s)))"

text \<open>
  \<^verbatim>\<open>int(s)\<close> on a string. In ASCII text the whitespace around the literal is
  dropped and one sign is allowed; every other text raises a \<^verbatim>\<open>ValueError\<close>. For a
  text with characters beyond ASCII Python first consults the Unicode tables of
  digits and spaces; what it gives then is the parameter \<open>unicode_int\<close>.
\<close>

definition py_int :: "(string \<Rightarrow> py_error + int) \<Rightarrow> string \<Rightarrow> py_error + int" where
  "py_int unicode_int s =
     (if \<not> list_all is_ascii s then unicode_int s
      else case int_strip s of
             [] \<Rightarrow> Inl invalid_literal
           | c # cs \<Rightarrow>
               if c = CHR ''-'' then map_sum id (\<lambda>n. - int n) (py_digits cs)
               else if c = CHR ''+'' then map_sum id int (py_digits cs)
               else map_sum id int (py_digits (c # cs)))"

text \<open>\<^verbatim>\<open>str(n)\<close> on an integer.\<close>

definition digit_char :: "nat \<Rightarrow> char" where
  "digit_char d = ''0123456789'' ! d"

fun str_nat :: "nat \<Rightarrow> string" where
  "str_nat n =
     (if n < 10 then [digit_char n] else str_nat (n div 10) @ [digit_char (n mod 10)])"

declare str_nat.simps [simp del]

definition str_int :: "int \<Rightarrow> string" where
  "str_int k = (if k < 0 then CHR ''-'' # str_nat (nat (- k)) else str_nat (nat k))"

text \<open>\<^verbatim>\<open>os.path.join(a, b)\<close> of \<^verbatim>\<open>posixpath\<close>, for two components.\<close>

definition join :: "string \<Rightarrow> string \<Rightarrow> string" where
  "join a b =
     (if b \<noteq> [] \<and> hd b = CHR ''/'' then b
      else if a = [] \<or> last a = CHR ''/'' then a @ b
      else a @ ''/'' @ b)"

section \<open>Text files\<close>

text \<open>
  The bytes that decode as UTF-8, as the strict decoder of Python accepts them: an
  ASCII byte, or a lead byte with its one, two or three continuation bytes, without
  the overlong forms, the surrogates and the code points beyond U+10FFFF.
\<close>

definition continuation :: "char \<Rightarrow> bool" where
  "continuation c = (0x80 \<le> byte c \<and> byte c < 0xC0)"

fun utf8 :: "string \<Rightarrow> bool" where
  "utf8 [] = True"
| "utf8 (a # s) =
     (if byte a < 0x80 then utf8 s
      else if 0xC2 \<le> byte a \<and> byte a < 0xE0
      then (case s of
              b # s1 \<Rightarrow> continuation b \<and> utf8 s1
            | _ \<Rightarrow> False)
      else if 0xE0 \<le> byte a \<and> byte a < 0xF0
      then (case s of
              b # c # s2 \<Rightarrow>
                continuation b \<and> continuation c
                \<and> (if byte a = 0xE0 then 0xA0 \<le> byte b else True)
                \<and> (if byte a = 0xED then byte b < 0xA0 else True)
                \<and> utf8 s2
            | _ \<Rightarrow> False)
      else if 0xF0 \<le> byte a \<and> byte a < 0xF5
      then (case s of
              b # c # d # s3 \<Rightarrow>
                continuation b \<and> continuation c \<and> continuation d
                \<and> (if byte a = 0xF0 then 0x90 \<le> byte b else True)
                \<and> (if byte a = 0xF4 then byte b < 0x90 else True)
                \<and> utf8 s3
            | _ \<Rightarrow> False)
      else False)"

text \<open>
  Reading in text mode gives the line ends CRLF and CR as LF (the universal newlines
  of \<^verbatim>\<open>open\<close>, its default).
\<close>

fun universal_newlines :: "string \<Rightarrow> string" where
  "universal_newlines [] = []"
| "universal_newlines [c] = (if c = CR then [LF] else [c])"
| "universal_newlines (c # d # s) =
     (if c = CR then (if d = LF then LF # universal_newlines s
                      else LF # universal_newlines (d # s))
      else c # universal_newlines (d # s))"

text \<open>The pieces of a text that end with an LF each, and the rest after the last LF.\<close>

fun split_lines :: "string \<Rightarrow> string list" where
  "split_lines [] = []"
| "split_lines (c # cs) =
     (if c = LF then [c] # split_lines cs
      else (case split_lines cs of [] \<Rightarrow> [[c]] | l # ls \<Rightarrow> (c # l) # ls))"

text \<open>
  \<^verbatim>\<open>f.readlines()\<close> on the bytes of a file that decodes: the lines of the content,
  each with its line end, which is LF whatever it was in the file;
  \<^verbatim>\<open>f.writelines(data)\<close> writes the strings one after the other.
\<close>

definition readlines :: "string \<Rightarrow> string list" where
  "readlines content = split_lines (universal_newlines content)"

definition writelines :: "string list \<Rightarrow> string" where
  "writelines data = concat data"

type_synonym text_fs = "string \<rightharpoonup> string"

text \<open>
  \<^verbatim>\<open>
  def edit_last_line(file_to_process, new_last_line):
      with open(file_to_process, "r") as f:
          data = f.readlines()
      data[-1] = new_last_line
      with open(file_to_process, "w") as f:
          f.writelines(data)
  \<close>
  Opening a missing file raises, reading a file that does not decode raises, and so
  does \<^verbatim>\<open>data[-1]\<close> on the empty list of an empty file; in each case the file has
  not been opened for writing yet.
\<close>

definition edit_last_line :: "string \<Rightarrow> string \<Rightarrow> text_fs \<Rightarrow> py_error + text_fs" where
  "edit_last_line file_to_process new_last_line files =
     (case files file_to_process of
        None \<Rightarrow> Inl FileNotFoundError
      | Some content \<Rightarrow>
          if \<not> utf8 content then Inl UnicodeDecodeError
          else
            (let data = readlines content in
             if data = [] then Inl IndexError
             else Inr (files(file_to_process \<mapsto>
                    writelines (data[length data - 1 := new_last_line])))))"

text \<open>A line that ends with its line end, the only LF in it.\<close>

definition full_line :: "string \<Rightarrow> bool" where
  "full_line l = (l \<noteq> [] \<and> last l = LF \<and> LF \<notin> set (butlast l))"

section \<open>The minimization log\<close>

text \<open>
  The GROMACS programs that \<^verbatim>\<open>minimize\<close> runs are external; what the function does
  itself is to read the log of the run and classify it:
  \<^verbatim>\<open>
  for line in logfile:
      if "inf on atom " in line:
          return int(line.split("inf on atom ")[-1])  # grab atom id
      if "ERROR" in line:
          raise ValueError(
              "something went wrong with the minimizaion, but not atom overlap!"
          )
  return None  # apparently, everything worked
  \<close>
  The result \<open>Inr None\<close> is the outcome Success, \<open>Inr (Some k)\<close> is AtomOverlap(k),
  and \<open>Inl fatal_error\<close> is the FatalError. \<^verbatim>\<open>int\<close> raises a \<^verbatim>\<open>ValueError\<close> of
  its own when the text after the marker is no integer literal. The lines are those
  that \<^verbatim>\<open>f.readlines()\<close> gave for the log, each with its line end LF.
\<close>

definition overlap_marker :: string where
  "overlap_marker = ''inf on atom ''"

definition error_marker :: string where
  "error_marker = ''ERROR''"

definition fatal_error :: py_error where
  "fatal_error = ValueError ''something went wrong with the minimizaion, but not atom overlap!''"

fun scan_log :: "(string \<Rightarrow> py_error + int) \<Rightarrow> string list \<Rightarrow> py_error + int option" where
  "scan_log unicode_int [] = Inr None"
| "scan_log unicode_int (line # logfile) =
     (if contains overlap_marker line
      then (case py_int unicode_int (last (py_split overlap_marker line)) of
              Inl e \<Rightarrow> Inl e
            | Inr atom_id \<Rightarrow> Inr (Some atom_id))
      else if contains error_marker line then Inl fatal_error
      else scan_log unicode_int logfile)"

text \<open>
  A separator that cannot overlap with itself: none of its proper prefixes is also
  a suffix of it. Every occurrence of such a separator in a string is found by the
  split.
\<close>

definition border_free :: "string \<Rightarrow> bool" where
  "border_free sep =
     (sep \<noteq> [] \<and> list_all (\<lambda>k. take k sep \<noteq> drop (length sep - k) sep) [1..<length sep])"

section \<open>Positions and the geometric scaler\<close>

text \<open>
  Atom positions live in the coordinate array of their universe and an atom group is a
  view into it. The store maps an atom (its address, of any type \<open>'a\<close>) to its
  position; a group is the list of its atoms in iteration order.
\<close>

type_synonym position = "real \<times> real \<times> real"

definition pos_x :: "position \<Rightarrow> real" where
  "pos_x p = fst p"

definition pos_y :: "position \<Rightarrow> real" where
  "pos_y p = fst (snd p)"

definition pos_z :: "position \<Rightarrow> real" where
  "pos_z p = snd (snd p)"

text \<open>
  \<^verbatim>\<open>group.atoms.center(None)\<close> of MDAnalysis: the mean of the positions with equal
  weights. For a group without atoms MDAnalysis gives back the empty coordinate
  array, which has no centre in it: that is \<open>None\<close> here.
\<close>

definition center :: "('a \<Rightarrow> position) \<Rightarrow> 'a list \<Rightarrow> position option" where
  "center st ag =
     (if ag = [] then None
      else Some (sum_list (map (\<lambda>a. pos_x (st a)) ag) / real (length ag),
                 sum_list (map (\<lambda>a. pos_y (st a)) ag) / real (length ag),
                 sum_list (map (\<lambda>a. pos_z (st a)) ag) / real (length ag)))"

text \<open>
  \<^verbatim>\<open>
  def stretch_relative(to_strech, anchor, scale_factor: float):
      center = anchor.atoms.center(None)
      for atom in to_strech.atoms:
          atom.position = np.array(
              [
                  center[0] + scale_factor * (atom.position[0] - center[0]),
                  center[1] + scale_factor * (atom.position[1] - center[1]),
                  atom.position[2],
              ]
          )
  \<close>
  With the empty array for the centre, \<^verbatim>\<open>center[0]\<close> raises \<^verbatim>\<open>IndexError\<close> at the
  first atom of the loop, before any position is assigned: the store is then as it was.
\<close>

definition stretch_atom :: "position \<Rightarrow> real \<Rightarrow> position \<Rightarrow> position" where
  "stretch_atom c scale_factor p =
     (pos_x c + scale_factor * (pos_x p - pos_x c),
      pos_y c + scale_factor * (pos_y p - pos_y c),
      pos_z p)"

definition stretch_relative ::
  "'a list \<Rightarrow> 'a list \<Rightarrow> real \<Rightarrow> ('a \<Rightarrow> position) \<Rightarrow> py_error + ('a \<Rightarrow> position)" where
  "stretch_relative to_strech anchor scale_factor st =
     (case center st anchor of
        None \<Rightarrow> if to_strech = [] then Inr st else Inl IndexError
      | Some c \<Rightarrow>
          Inr (fold (\<lambda>atom s. s(atom := stretch_atom c scale_factor (s atom))) to_strech st))"

section \<open>The box-size line\<close>

text \<open>
  \<^verbatim>\<open>round(x, ndigits)\<close>: the nearest multiple of \<open>10^-ndigits\<close>, a tie going to
  the even one.
\<close>

definition round_half_even :: "real \<Rightarrow> int" where
  "round_half_even x =
     (let f = \<lfloor>x\<rfloor>; d = x - of_int f
      in if d < 1 / 2 then f else if 1 / 2 < d then f + 1 else if even f then f else f + 1)"

definition py_round :: "real \<Rightarrow> nat \<Rightarrow> real" where
  "py_round x ndigits = of_int (round_half_even (x * 10 ^ ndigits)) / 10 ^ ndigits"

text \<open>\<^verbatim>\<open>s.rjust(width)\<close>: spaces on the left up to the width, nothing cut.\<close>

definition rjust :: "nat \<Rightarrow> string \<Rightarrow> string" where
  "rjust width s = replicate (width - length s) (CHR '' '') @ s"

definition could_not_convert :: py_error where
  "could_not_convert = ValueError ''could not convert string to float''"

text \<open>
  \<^verbatim>\<open>
  def stretch_boxsize(boxsize_line: str, scale_factor: float):
      scale = [scale_factor, scale_factor, 1]  # only in x-y plane!
      dimenions = [
          round(float(x) * scale[n], 5) for n, x in enumerate(boxsize_line.split())
      ]
      return "".join([str(x).rjust(10) for x in dimenions]) + "\n"
  \<close>
  \<open>pf\<close> is \<^verbatim>\<open>float\<close> on a string (\<open>None\<close> when it raises) and \<open>ps\<close> is \<^verbatim>\<open>str\<close>
  on a float. The comprehension goes through the fields in order; in each field
  \<^verbatim>\<open>float(x)\<close> is evaluated before \<^verbatim>\<open>scale[n]\<close>.
\<close>

fun scaled_dimensions ::
  "(string \<Rightarrow> real option) \<Rightarrow> real list \<Rightarrow> nat \<Rightarrow> string list \<Rightarrow> py_error + real list" where
  "scaled_dimensions pf scale n [] = Inr []"
| "scaled_dimensions pf scale n (x # xs) =
     (case pf x of
        None \<Rightarrow> Inl could_not_convert
      | Some v \<Rightarrow>
          if n < length scale
          then (case scaled_dimensions pf scale (Suc n) xs of
                  Inl e \<Rightarrow> Inl e
                | Inr ds \<Rightarrow> Inr (py_round (v * scale ! n) 5 # ds))
          else Inl IndexError)"

definition stretch_boxsize ::
  "(string \<Rightarrow> real option) \<Rightarrow> (real \<Rightarrow> string) \<Rightarrow> string \<Rightarrow> real \<Rightarrow> py_error + string" where
  "stretch_boxsize pf ps boxsize_line scale_factor =
     (case scaled_dimensions pf [scale_factor, scale_factor, 1] 0 (split_ws boxsize_line) of
        Inl e \<Rightarrow> Inl e
      | Inr dimenions \<Rightarrow> Inr (concat (map (\<lambda>x. rjust 10 (ps x)) dimenions) @ [LF]))"

section \<open>The compression schedule\<close>

text \<open>
  \<^verbatim>\<open>stepwise_compression = np.power(end_scale / starting_scale, 1 / steps)\<close>.
  Both quotients raise \<^verbatim>\<open>ZeroDivisionError\<close> on a zero divisor. (For a negative
  base numpy yields \<^verbatim>\<open>nan\<close>, which the reals do not have.)
\<close>

definition stepwise_compression :: "real \<Rightarrow> real \<Rightarrow> nat \<Rightarrow> py_error + real" where
  "stepwise_compression starting_scale end_scale steps =
     (if starting_scale = 0 \<or> steps = 0 then Inl ZeroDivisionError
      else Inr ((end_scale / starting_scale) powr (1 / real steps)))"

section \<open>Structure files and the file system\<close>

text \<open>
  A universe of MDAnalysis: the atoms in order, each with what names it (its name
  and residue, of a type \<open>'m\<close>) and its position, and the box. A structure file
  holds a universe; loading and writing are exact here (the three decimals of the
  \<^verbatim>\<open>.gro\<close> format are outside the model). A text file is the list of its lines.
  The file system maps a path, as it is spelled, to what the file holds.
\<close>

record 'm universe =
  atoms :: "('m \<times> position) list"
  dimensions :: "real list"

definition position_of :: "'m universe \<Rightarrow> nat \<Rightarrow> position" where
  "position_of u i = snd (atoms u ! i)"

definition with_positions :: "'m universe \<Rightarrow> (nat \<Rightarrow> position) \<Rightarrow> 'm universe" where
  "with_positions u st = u\<lparr>atoms := map (\<lambda>i. (fst (atoms u ! i), st i)) [0..<length (atoms u)]\<rparr>"

datatype 'm content = Gro "'m universe" | Text "string list"

type_synonym 'm fs = "string \<rightharpoonup> 'm content"

text \<open>
  One minimization run or one perturbation of an atom, with the number of the
  compression step: a record of what the controller did, kept beside the files.
\<close>

datatype event = Minimized nat "py_error + int option" | Perturbed nat int

record 'm state =
  fs :: "'m fs"
  calls :: nat
  events :: "event list"

text \<open>
  The collaborators of the controller. \<open>engine k f\<close> is the \<open>k\<close>-th run of
  \<^verbatim>\<open>grompp\<close> and \<^verbatim>\<open>mdrun\<close> on the coordinate file \<open>f\<close>: it gives the lines of the
  log and the minimized structure, if the run wrote one (a crash of the programs
  themselves is outside the model). \<open>selected s u i\<close> says
  whether the selection \<open>s\<close> holds the atom with the index \<open>i\<close> of the universe
  \<open>u\<close>. \<open>pfloat\<close> and \<open>pstr\<close> are \<^verbatim>\<open>float\<close> on a string and \<^verbatim>\<open>str\<close> on a float,
  and \<open>pint\<close> is \<^verbatim>\<open>int\<close> on a text with characters beyond ASCII.
\<close>

record 'm env =
  engine :: "nat \<Rightarrow> 'm content option \<Rightarrow> string list \<times> 'm universe option"
  selected :: "string \<Rightarrow> 'm universe \<Rightarrow> nat \<Rightarrow> bool"
  pfloat :: "string \<Rightarrow> real option"
  pstr :: "real \<Rightarrow> string"
  pint :: "string \<Rightarrow> py_error + int"

text \<open>\<^verbatim>\<open>u.select_atoms(s)\<close>: the selected atoms of the universe, in its order.\<close>

definition select_atoms :: "'m env \<Rightarrow> string \<Rightarrow> 'm universe \<Rightarrow> nat list" where
  "select_atoms env s u = filter (selected env s u) [0..<length (atoms u)]"

definition not_a_structure :: py_error where
  "not_a_structure = ValueError ''not a structure file''"

text \<open>\<^verbatim>\<open>mda.Universe(path)\<close>.\<close>

definition load_universe :: "'m state \<Rightarrow> string \<Rightarrow> py_error + 'm universe" where
  "load_universe st path =
     (case fs st path of
        None \<Rightarrow> Inl FileNotFoundError
      | Some (Gro u) \<Rightarrow> Inr u
      | Some (Text ls) \<Rightarrow> Inl not_a_structure)"

text \<open>\<^verbatim>\<open>u.atoms.write(path)\<close>.\<close>

definition write_universe :: "string \<Rightarrow> 'm universe \<Rightarrow> 'm state \<Rightarrow> 'm state" where
  "write_universe path u st = st\<lparr>fs := (fs st)(path \<mapsto> Gro u)\<rparr>"

text \<open>\<^verbatim>\<open>shutil.copyfile(src, dst)\<close>.\<close>

definition copyfile :: "string \<Rightarrow> string \<Rightarrow> 'm state \<Rightarrow> py_error + 'm state" where
  "copyfile src dst st =
     (case fs st src of
        None \<Rightarrow> Inl FileNotFoundError
      | Some f \<Rightarrow> Inr (st\<lparr>fs := (fs st)(dst \<mapsto> f)\<rparr>))"

text \<open>
  \<^verbatim>\<open>
  def change_boxsize(file_to_process: str, boxsize_line: str):
      dimenions = [float(x) * 10 for x in boxsize_line.split()]  # nm -> A
      u = mda.Universe(file_to_process)
      print(dimenions)
      u.dimensions = np.array(dimenions + [90, 90, 90])
      u.atoms.write(file_to_process)
  \<close>
  The box of a universe has six entries; an array of another length is refused.
\<close>

fun nm_to_angstrom :: "(string \<Rightarrow> real option) \<Rightarrow> string list \<Rightarrow> py_error + real list" where
  "nm_to_angstrom pf [] = Inr []"
| "nm_to_angstrom pf (x # xs) =
     (case pf x of
        None \<Rightarrow> Inl could_not_convert
      | Some v \<Rightarrow>
          (case nm_to_angstrom pf xs of
             Inl e \<Rightarrow> Inl e
           | Inr vs \<Rightarrow> Inr (v * 10 # vs)))"

definition bad_box :: py_error where
  "bad_box = ValueError ''could not broadcast input array into shape (6,)''"

definition change_boxsize ::
  "(string \<Rightarrow> real option) \<Rightarrow> string \<Rightarrow> string \<Rightarrow> 'm state \<Rightarrow> py_error + 'm state" where
  "change_boxsize pf file_to_process boxsize_line st =
     (case nm_to_angstrom pf (split_ws boxsize_line) of
        Inl e \<Rightarrow> Inl e
      | Inr dimenions \<Rightarrow>
          (case load_universe st file_to_process of
             Inl e \<Rightarrow> Inl e
           | Inr u \<Rightarrow>
               if length (dimenions @ [90, 90, 90]) \<noteq> 6 then Inl bad_box
               else Inr (write_universe file_to_process
                           (u\<lparr>dimensions := dimenions @ [90, 90, 90]\<rparr>) st)))"

text \<open>
  \<^verbatim>\<open>minimize(file_to_process, folder_path, name, ...)\<close>: the engine runs on the
  coordinate file and writes \<^verbatim>\<open>name.log\<close> and, when it has one, the minimized
  structure \<^verbatim>\<open>name.gro\<close> into the folder; then the log is read and classified.
\<close>

definition minimize ::
  "'m env \<Rightarrow> string \<Rightarrow> string \<Rightarrow> string \<Rightarrow> 'm state \<Rightarrow> (py_error + int option) \<times> 'm state" where
  "minimize env file_to_process folder_path name st =
     (let (logfile, out) = engine env (calls st) (fs st file_to_process);
          fs1 = (fs st)(join folder_path (name @ ''.log'') \<mapsto> Text logfile);
          fs2 = (case out of
                   None \<Rightarrow> fs1
                 | Some u \<Rightarrow> fs1(join folder_path (name @ ''.gro'') \<mapsto> Gro u))
      in (scan_log (pint env) logfile, st\<lparr>fs := fs2, calls := Suc (calls st)\<rparr>))"

section \<open>The embedding controller\<close>

text \<open>
  \<^verbatim>\<open>stretch_relative\<close> on two groups of one universe (the groups are lists of atom
  indices), and on two universes (the lipid universe against the protein universe).
\<close>

definition stretch_groups ::
  "nat list \<Rightarrow> nat list \<Rightarrow> real \<Rightarrow> 'm universe \<Rightarrow> py_error + 'm universe" where
  "stretch_groups to_strech anchor scale_factor u =
     (case stretch_relative to_strech anchor scale_factor (position_of u) of
        Inl e \<Rightarrow> Inl e
      | Inr st \<Rightarrow> Inr (with_positions u st))"

definition stretch_universes ::
  "'m universe \<Rightarrow> 'm universe \<Rightarrow> real \<Rightarrow> py_error + 'm universe" where
  "stretch_universes to_strech anchor scale_factor =
     (case stretch_relative (map Inr [0..<length (atoms to_strech)])
             (map Inl [0..<length (atoms anchor)]) scale_factor
             (case_sum (position_of anchor) (position_of to_strech)) of
        Inl e \<Rightarrow> Inl e
      | Inr st \<Rightarrow> Inr (with_positions to_strech (\<lambda>j. st (Inr j))))"

definition empty_group :: py_error where
  "empty_group = ValueError ''cannot merge empty AtomGroup''"

text \<open>
  \<^verbatim>\<open>mda.Merge(a.atoms, b.atoms)\<close>: a new universe with copies of the atoms, and no
  box; an empty group is refused.
\<close>

definition merge :: "'m universe \<Rightarrow> 'm universe \<Rightarrow> py_error + 'm universe" where
  "merge a b =
     (if atoms a = [] \<or> atoms b = [] then Inl empty_group
      else Inr \<lparr>atoms = atoms a @ atoms b, dimensions = []\<rparr>)"

text \<open>
  \<^verbatim>\<open>select_atoms("bynum " + str(k))\<close>: the atom with the number \<open>k\<close>, counted from
  one; the selection is empty when there is no such atom, and \<^verbatim>\<open>sel[0]\<close> then
  raises. (For a number below one the selection language may refuse the text
  instead; the call raises either way.)
\<close>

definition select_bynum :: "int \<Rightarrow> 'm universe \<Rightarrow> nat list" where
  "select_bynum k u = (if 1 \<le> k \<and> k \<le> int (length (atoms u)) then [nat (k - 1)] else [])"

text \<open>\<^verbatim>\<open>sel[0].position = sel[0].position + np.array([1, 0, 0])\<close>.\<close>

definition perturb :: "nat \<Rightarrow> 'm universe \<Rightarrow> 'm universe" where
  "perturb i u =
     u\<lparr>atoms := (atoms u)
          [i := (fst (atoms u ! i),
                 (pos_x (position_of u i) + 1, pos_y (position_of u i), pos_z (position_of u i)))]\<rparr>"

datatype result = Done | Raised py_error | OutOfFuel

definition raw_name :: "nat \<Rightarrow> string" where
  "raw_name n = ''embed_raw'' @ str_nat n @ ''.gro''"

text \<open>
  The retry loop of one compression step. The loop has no bound in the source; here
  it gets a number of rounds, and \<open>OutOfFuel\<close> says that it was still running after
  them.
  \<^verbatim>\<open>
  return_code = -1
  while return_code != None:
      shutil.copyfile(
          join(folder_path, "template.top"), join(folder_path, "topol.top")
      )
      return_code = minimize(
          join(folder_path, f"embed_raw{n}.gro"),
          folder_path,
          name=f"embed_{n}",
          mdrun_flags=mdrun_flags,
          grompp_flags={"maxwarn": 1},
      )
      if return_code != None:
          sel = combined_universe.select_atoms("bynum " + str(return_code))
          sel[0].position = sel[0].position + np.array([1, 0, 0])
          combined_universe.atoms.write(folder_path + f"embed_raw{n}.gro")
          change_boxsize(join(folder_path, f"embed_raw{n}.gro"), boxsize)
  \<close>
\<close>

fun retry_loop ::
  "'m env \<Rightarrow> nat \<Rightarrow> string \<Rightarrow> nat \<Rightarrow> string \<Rightarrow> 'm universe \<Rightarrow> 'm state \<Rightarrow> result \<times> 'm state" where
  "retry_loop env 0 folder_path n boxsize combined_universe st = (OutOfFuel, st)"
| "retry_loop env (Suc fuel) folder_path n boxsize combined_universe st =
     (case copyfile (join folder_path ''template.top'') (join folder_path ''topol.top'') st of
        Inl e \<Rightarrow> (Raised e, st)
      | Inr st1 \<Rightarrow>
          (case minimize env (join folder_path (raw_name n)) folder_path
                  (''embed_'' @ str_nat n) st1 of
             (return_code, st2) \<Rightarrow>
               (let st3 = st2\<lparr>events := events st2 @ [Minimized n return_code]\<rparr>
                in case return_code of
                     Inl e \<Rightarrow> (Raised e, st3)
                   | Inr None \<Rightarrow> (Done, st3)
                   | Inr (Some atom_id) \<Rightarrow>
                       (case select_bynum atom_id combined_universe of
                          [] \<Rightarrow> (Raised IndexError, st3)
                        | i # sel \<Rightarrow>
                            (let moved = perturb i combined_universe;
                                 st4 = write_universe (folder_path @ raw_name n) moved
                                         (st3\<lparr>events := events st3 @ [Perturbed n atom_id]\<rparr>)
                             in case change_boxsize (pfloat env)
                                       (join folder_path (raw_name n)) boxsize st4 of
                                  Inl e \<Rightarrow> (Raised e, st4)
                                | Inr st5 \<Rightarrow>
                                    retry_loop env fuel folder_path n boxsize moved st5)))))"

text \<open>
  The compression steps, \<^verbatim>\<open>for n in range(1, steps + 1)\<close>, as a recursion over the
  list of the step numbers still to do (each at least one).
  \<^verbatim>\<open>
  combined_universe = mda.Universe(join(folder_path, f"embed_{n-1}.gro"))
  protein = combined_universe.select_atoms("not ( " + lipid_selection + " )")
  lipid = combined_universe.select_atoms(lipid_selection)
  stretch_relative(lipid, protein, stepwise_compression)
  boxsize = stretch_boxsize(boxsize, stepwise_compression)
  combined_universe.atoms.write(join(folder_path, f"embed_raw{n}.gro"))
  change_boxsize(join(folder_path, f"embed_raw{n}.gro"), boxsize)
  \<close>
\<close>

fun compress_steps ::
  "'m env \<Rightarrow> nat \<Rightarrow> string \<Rightarrow> string \<Rightarrow> real \<Rightarrow> string \<Rightarrow> nat list \<Rightarrow> 'm state
     \<Rightarrow> result \<times> 'm state" where
  "compress_steps env fuel folder_path lipid_selection ratio boxsize [] st = (Done, st)"
| "compress_steps env fuel folder_path lipid_selection ratio boxsize (n # ns) st =
     (case load_universe st (join folder_path (''embed_'' @ str_nat (n - 1) @ ''.gro'')) of
        Inl e \<Rightarrow> (Raised e, st)
      | Inr combined_universe \<Rightarrow>
          (let protein = select_atoms env (''not ( '' @ lipid_selection @ '' )'') combined_universe;
               lipid = select_atoms env lipid_selection combined_universe
           in case stretch_groups lipid protein ratio combined_universe of
                Inl e \<Rightarrow> (Raised e, st)
              | Inr stretched \<Rightarrow>
          (case stretch_boxsize (pfloat env) (pstr env) boxsize ratio of
                Inl e \<Rightarrow> (Raised e, st)
              | Inr boxsize' \<Rightarrow>
                  (let st1 = write_universe (join folder_path (raw_name n)) stretched st
                   in case change_boxsize (pfloat env) (join folder_path (raw_name n))
                             boxsize' st1 of
                        Inl e \<Rightarrow> (Raised e, st1)
                      | Inr st2 \<Rightarrow>
                          (case retry_loop env fuel folder_path n boxsize' stretched st2 of
                             (Done, st3) \<Rightarrow>
                               compress_steps env fuel folder_path lipid_selection ratio
                                 boxsize' ns st3
                           | (r, st3) \<Rightarrow> (r, st3))))))"

text \<open>
  \<^verbatim>\<open>embed_in_lipids\<close>: the initial embedding, the schedule, the compression steps,
  and at the end
  \<^verbatim>\<open>shutil.copyfile(join(folder_path, f"embed_{steps}.gro"), protein_path)\<close>.
  The number of steps is a count, a natural number.
\<close>

definition embed_in_lipids ::
  "'m env \<Rightarrow> nat \<Rightarrow> string \<Rightarrow> string \<Rightarrow> string \<Rightarrow> string \<Rightarrow> string \<Rightarrow> real \<Rightarrow> real \<Rightarrow> nat
     \<Rightarrow> 'm fs \<Rightarrow> result \<times> 'm state" where
  "embed_in_lipids env fuel protein_path lipid_path folder_path lipid_selection boxsize_line
       starting_scale end_scale steps files =
     (let st = \<lparr>fs = files, calls = 0, events = []\<rparr>
      in case load_universe st protein_path of
           Inl e \<Rightarrow> (Raised e, st)
         | Inr protein_universe \<Rightarrow>
      (case load_universe st lipid_path of
           Inl e \<Rightarrow> (Raised e, st)
         | Inr lipid_universe \<Rightarrow>
      (case stretch_universes lipid_universe protein_universe starting_scale of
           Inl e \<Rightarrow> (Raised e, st)
         | Inr stretched \<Rightarrow>
      (case stretch_boxsize (pfloat env) (pstr env) boxsize_line starting_scale of
           Inl e \<Rightarrow> (Raised e, st)
         | Inr boxsize \<Rightarrow>
      (case merge protein_universe stretched of
           Inl e \<Rightarrow> (Raised e, st)
         | Inr combined_universe \<Rightarrow>
      (let st1 = write_universe (join folder_path ''embed_0.gro'') combined_universe st
       in case change_boxsize (pfloat env) (join folder_path ''embed_0.gro'') boxsize st1 of
           Inl e \<Rightarrow> (Raised e, st1)
         | Inr st2 \<Rightarrow>
      (case stepwise_compression starting_scale end_scale steps of
           Inl e \<Rightarrow> (Raised e, st2)
         | Inr ratio \<Rightarrow>
      (case compress_steps env fuel folder_path lipid_selection ratio boxsize
              [1..<Suc steps] st2 of
           (Done, st3) \<Rightarrow>
             (case copyfile (join folder_path (''embed_'' @ str_nat steps @ ''.gro''))
                     protein_path st3 of
                Inl e \<Rightarrow> (Raised e, st3)
              | Inr st4 \<Rightarrow> (Done, st4))
         | (r, st3) \<Rightarrow> (r, st3)))))))))"

text \<open>
  The paths the controller and the engine write while they work, for a folder: the
  structure of each step, its raw structure (under both spellings of its path), its
  log, and the working topology.
\<close>

definition artifact_paths :: "string \<Rightarrow> string set" where
  "artifact_paths folder_path =
     {join folder_path ''topol.top''}
     \<union> (\<Union>n. {join folder_path (''embed_'' @ str_nat n @ ''.gro''),
              join folder_path (''embed_'' @ str_nat n @ ''.log''),
              join folder_path (raw_name n),
              folder_path @ raw_name n})"

section \<open>Position restraints\<close>

text \<open>
  The GROMACS commands a function issues and the files it removes, in order.
  \<open>Make_ndx f o input\<close> and \<open>Genrestr f o n input\<close> carry the arguments of the
  calls; \<open>n\<close> is the index file, when one is given.
\<close>

datatype command =
    Make_ndx string string "string list"
  | Genrestr string string "string option" "string list"
  | Remove string

text \<open>\<^verbatim>\<open>os.path.dirname(p)\<close> of \<^verbatim>\<open>posixpath\<close>.\<close>

definition dirname :: "string \<Rightarrow> string" where
  "dirname p =
     (let head = rev (dropWhile (\<lambda>c. c \<noteq> CHR ''/'') (rev p))
      in if head \<noteq> [] \<and> head \<noteq> replicate (length head) (CHR ''/'')
         then rev (dropWhile (\<lambda>c. c = CHR ''/'') (rev head))
         else head)"

text \<open>
  \<^verbatim>\<open>parse_indexkey_to_list(file)\<close>: \<^verbatim>\<open>make_ndx\<close> writes its default groups for the
  file into a transient index, their names are read in order, and the index is
  removed. \<open>default_groups\<close> stands for the names GROMACS gives.
\<close>

definition parse_indexkey_to_list ::
  "(string \<Rightarrow> string list) \<Rightarrow> string \<Rightarrow> string list \<times> command list" where
  "parse_indexkey_to_list default_groups file_to_process =
     (default_groups file_to_process,
      [Make_ndx file_to_process (join (dirname file_to_process) ''temp.ndx'') ['''', ''q''],
       Remove (join (dirname file_to_process) ''temp.ndx'')])"

text \<open>\<^verbatim>\<open>xs.index(x)\<close>: the first position of \<open>x\<close>; \<open>None\<close> when it raises.\<close>

fun py_index :: "'a \<Rightarrow> 'a list \<Rightarrow> nat option" where
  "py_index x [] = None"
| "py_index x (y # ys) = (if x = y then Some 0 else map_option Suc (py_index x ys))"

text \<open>\<^verbatim>\<open>sep.join(xs)\<close>.\<close>

fun py_join :: "string \<Rightarrow> string list \<Rightarrow> string" where
  "py_join sep [] = []"
| "py_join sep [x] = x"
| "py_join sep (x # y # ys) = x @ sep @ py_join sep (y # ys)"

definition not_in_list :: py_error where
  "not_in_list = ValueError ''is not in list''"

text \<open>
  \<^verbatim>\<open>
  current_index_list = parse_indexkey_to_list(file_to_process)
  group_index = current_index_list.index(group)
  if len(exclude_res) > 0:
      exclude_string = " | ".join([f"r {res}" for res in exclude_res])
      gromacs.make_ndx(
          f=file_to_process,
          o=join(folder_path, "temp.ndx"),
          input=[exclude_string, f"!{len(current_index_list)} & {group_index}", "q"],
      )
      gromacs.genrestr(
          f=file_to_process,
          o=join(folder_path, "posre.itp"),
          n=join(folder_path, "temp.ndx"),
          input=[str(len(current_index_list) + 1)],
      )
      os.remove(join(folder_path, "temp.ndx"))
  else:
      gromacs.genrestr(
          f=file_to_process,
          o=join(folder_path, "posre.itp"),
          input=[str(group_index)],
      )
  \<close>
  The result is the list of the commands issued, or the error of the lookup.
\<close>

definition exclude_string :: "int list \<Rightarrow> string" where
  "exclude_string exclude_res = py_join '' | '' (map (\<lambda>res. ''r '' @ str_int res) exclude_res)"

definition generate_posre ::
  "(string \<Rightarrow> string list) \<Rightarrow> string \<Rightarrow> string \<Rightarrow> string \<Rightarrow> int list \<Rightarrow> py_error + command list" where
  "generate_posre default_groups file_to_process folder_path group_name exclude_res =
     (case parse_indexkey_to_list default_groups file_to_process of
        (current_index_list, listing) \<Rightarrow>
          (case py_index group_name current_index_list of
             None \<Rightarrow> Inl not_in_list
           | Some group_index \<Rightarrow>
               if length exclude_res > 0
               then Inr (listing @
                      [Make_ndx file_to_process (join folder_path ''temp.ndx'')
                         [exclude_string exclude_res,
                          ''!'' @ str_nat (length current_index_list) @ '' & ''
                            @ str_nat group_index,
                          ''q''],
                       Genrestr file_to_process (join folder_path ''posre.itp'')
                         (Some (join folder_path ''temp.ndx''))
                         [str_nat (length current_index_list + 1)],
                       Remove (join folder_path ''temp.ndx'')])
               else Inr (listing @
                      [Genrestr file_to_process (join folder_path ''posre.itp'') None
                         [str_nat group_index]])))"

text \<open>
  The groups of the index \<^verbatim>\<open>make_ndx\<close> writes: the default groups, then one new
  group for each selection line of its input, in order (an empty line and the quit
  command \<^verbatim>\<open>q\<close> make none). A group is named here by the line that made it, and its
  handle is its position in the list, counted from zero.
\<close>

definition make_ndx_groups :: "string list \<Rightarrow> string list \<Rightarrow> string list" where
  "make_ndx_groups current input = current @ filter (\<lambda>l. l \<noteq> [] \<and> l \<noteq> ''q'') input"

section \<open>Values for the examples\<close>

text \<open>
  \<^verbatim>\<open>float\<close> on the strings and \<^verbatim>\<open>str\<close> on the floats that the examples below use:
  each entry is what Python gives (\<^verbatim>\<open>float("7.50000") == 7.5\<close>,
  \<^verbatim>\<open>str(10.0) == "10.0"\<close>). Outside these entries the two functions stand for
  nothing. The texts of the examples are ASCII, so that \<^verbatim>\<open>int\<close> is never asked about
  another text; \<open>no_unicode_int\<close> stands for nothing either.
\<close>

definition no_unicode_int :: "string \<Rightarrow> py_error + int" where
  "no_unicode_int s = Inl invalid_literal"

definition float_examples :: "string \<Rightarrow> real option" where
  "float_examples = map_of
     [(''0'', 0), (''0.5'', 0.5), (''1'', 1), (''1.0'', 1), (''2.0'', 2), (''10'', 10),
      (''10.0'', 10), (''10.00000'', 10), (''7.50000'', 7.5), (''8.625'', 8.625),
      (''0.123456'', 0.123456), (''0.12346'', 0.12346), (''1234.56789'', 1234.56789)]"

definition str_examples :: "real \<Rightarrow> string" where
  "str_examples x =
     (if x = 0 then ''0.0'' else if x = 0.5 then ''0.5'' else if x = 1 then ''1.0''
      else if x = 2 then ''2.0'' else if x = 10 then ''10.0''
      else if x = 8.625 then ''8.625'' else if x = 0.12346 then ''0.12346''
      else if x = 1234.56789 then ''1234.56789'' else ''nan'')"

text \<open>
  A small system for the examples: a protein of one atom, four lipid atoms around
  it, a selection by residue name, and two engines. The first engine reports the
  overlap of atom 5 on its first run and then converges, giving back the structure
  it was run on; the second reports the overlap and then an error. In the runs below
  the box line is \<^verbatim>\<open>1 1 1\<close>, the lipids are stretched by 2 and then, in one step,
  compressed to the scale \<open>1 / 2\<close>, that is by the ratio \<open>1 / 4\<close>;
  \<open>combined_example x5 box\<close> is the combined structure after that step, with the
  fifth atom at \<open>x = x5\<close> and the box \<open>box\<close>.
\<close>

definition minimized_copy :: "string content option \<Rightarrow> string universe option" where
  "minimized_copy f = (case f of Some (Gro u) \<Rightarrow> Some u | _ \<Rightarrow> None)"

definition overlap_once :: "nat \<Rightarrow> string content option \<Rightarrow> string list \<times> string universe option" where
  "overlap_once k f =
     (if k = 0 then ([''Maximum force     =            inf on atom 5'' @ [LF]], None)
      else ([''Steepest Descents converged'' @ [LF]], minimized_copy f))"

definition overlap_then_error ::
  "nat \<Rightarrow> string content option \<Rightarrow> string list \<times> string universe option" where
  "overlap_then_error k f =
     (if k = 0 then ([''Maximum force     =            inf on atom 5'' @ [LF]], None)
      else ([''ERROR: blah'' @ [LF]], None))"

definition select_resname :: "string \<Rightarrow> string universe \<Rightarrow> nat \<Rightarrow> bool" where
  "select_resname s u i =
     (if s = ''resname POPC'' then fst (atoms u ! i) = ''POPC''
      else if s = ''not ( resname POPC )'' then fst (atoms u ! i) \<noteq> ''POPC''
      else False)"

definition example_env ::
  "(nat \<Rightarrow> string content option \<Rightarrow> string list \<times> string universe option) \<Rightarrow> string env" where
  "example_env eng = \<lparr>engine = eng, selected = select_resname,
                       pfloat = float_examples, pstr = str_examples, pint = no_unicode_int\<rparr>"

definition protein_example :: "string universe" where
  "protein_example = \<lparr>atoms = [(''ALA'', (0, 0, 0))], dimensions = []\<rparr>"

definition lipid_example :: "string universe" where
  "lipid_example =
     \<lparr>atoms = [(''POPC'', (1, 0, 0)), (''POPC'', (0, 1, 0)), (''POPC'', (-1, 0, 0)),
               (''POPC'', (0, -1, 5))],
      dimensions = []\<rparr>"

definition example_files :: "string fs" where
  "example_files = [''protein.gro'' \<mapsto> Gro protein_example, ''lipid.gro'' \<mapsto> Gro lipid_example,
       ''work/template.top'' \<mapsto> Text [''[ system ]'']]"

definition combined_example :: "real \<Rightarrow> real list \<Rightarrow> string universe" where
  "combined_example x5 box =
     \<lparr>atoms = [(''ALA'', (0, 0, 0)), (''POPC'', (1 / 2, 0, 0)), (''POPC'', (0, 1 / 2, 0)),
               (''POPC'', (- 1 / 2, 0, 0)), (''POPC'', (x5, - 1 / 2, 5))],
      dimensions = box\<rparr>"

section \<open>Traces of the controller\<close>

text \<open>
  Two properties of a result and the events that led to it: a minimization that
  raised is the last event and its error is the result; a run that is done ended
  with a successful minimization of the step \<open>n\<close>.
\<close>

definition fatal_is_last :: "result \<Rightarrow> event list \<Rightarrow> bool" where
  "fatal_is_last r evs =
     (\<forall>n e. Minimized n (Inl e) \<in> set evs \<longrightarrow> r = Raised e \<and> last evs = Minimized n (Inl e))"

definition success_is_last :: "nat \<Rightarrow> result \<Rightarrow> event list \<Rightarrow> bool" where
  "success_is_last n r evs = (r = Done \<longrightarrow> evs \<noteq> [] \<and> last evs = Minimized n (Inr None))"

section \<open>Lines of a text file\<close>

lemma universal_newlines_empty_iff: "universal_newlines s = [] \<longleftrightarrow> s = []"
  by (induction s rule: universal_newlines.induct) simp_all

lemma universal_newlines_no_CR: "CR \<notin> set (universal_newlines s)"
  by (induction s rule: universal_newlines.induct) (simp_all add: CR_def LF_def)

lemma universal_newlines_id: "CR \<notin> set s \<Longrightarrow> universal_newlines s = s"
  by (induction s rule: universal_newlines.induct) auto

lemma universal_newlines_append:
  "CR \<notin> set p \<Longrightarrow> universal_newlines (p @ s) = p @ universal_newlines s"
proof (induction p)
  case Nil
  show ?case by simp
next
  case (Cons c p)
  then have c: "c \<noteq> CR" and p: "CR \<notin> set p" by auto
  show ?case
  proof (cases "p @ s")
    case Nil
    with c show ?thesis by simp
  next
    case (Cons d r)
    from Cons.IH [OF p] c Cons show ?thesis
      by simp
  qed
qed

lemma split_lines_empty_iff: "split_lines s = [] \<longleftrightarrow> s = []"
  by (cases s) (auto split: list.splits)

lemma concat_split_lines: "concat (split_lines s) = s"
  by (induction s) (auto split: list.splits)

lemma split_lines_full_line: "full_line l \<Longrightarrow> split_lines (l @ s) = l # split_lines s"
proof (induction l)
  case Nil
  then show ?case by (simp add: full_line_def)
next
  case (Cons c l)
  show ?case
  proof (cases "l = []")
    case True
    with Cons.prems show ?thesis by (simp add: full_line_def)
  next
    case False
    with Cons.prems have "c \<noteq> LF" and "full_line l"
      by (auto simp: full_line_def)
    with Cons.IH show ?thesis by simp
  qed
qed

lemma split_lines_full_lines:
  "list_all full_line ls \<Longrightarrow> split_lines (concat ls @ s) = ls @ split_lines s"
  by (induction ls) (simp_all add: split_lines_full_line)

lemma butlast_split_lines_full: "list_all full_line (butlast (split_lines s))"
proof (induction s)
  case Nil
  show ?case by simp
next
  case (Cons c s)
  show ?case
  proof (cases "c = LF")
    case True
    with Cons show ?thesis
      by (cases "split_lines s") (simp_all add: full_line_def)
  next
    case False
    show ?thesis
    proof (cases "split_lines s")
      case Nil
      with False show ?thesis by simp
    next
      case (Cons l ls)
      show ?thesis
      proof (cases "ls = []")
        case True
        with Cons False show ?thesis by simp
      next
        case nonempty: False
        with Cons Cons.IH have l: "full_line l" and rest: "list_all full_line (butlast ls)"
          by simp_all
        from l False have "full_line (c # l)"
          by (auto simp: full_line_def)
        with False Cons nonempty rest show ?thesis
          by simp
      qed
    qed
  qed
qed

lemma readlines_empty_iff: "readlines s = [] \<longleftrightarrow> s = []"
  by (simp add: readlines_def split_lines_empty_iff universal_newlines_empty_iff)

lemma concat_readlines: "concat (readlines s) = universal_newlines s"
  by (simp add: readlines_def concat_split_lines)

lemma butlast_readlines_full: "list_all full_line (butlast (readlines s))"
  by (simp add: readlines_def butlast_split_lines_full)

lemma butlast_readlines_no_CR: "CR \<notin> set (concat (butlast (readlines s)))"
proof -
  have "set (concat (butlast (readlines s))) \<subseteq> set (concat (readlines s))"
    by (auto dest: in_set_butlastD)
  then show ?thesis
    using universal_newlines_no_CR [of s] by (auto simp: concat_readlines)
qed

lemma readlines_full_lines:
  assumes "list_all full_line ls" and "CR \<notin> set (concat ls)"
  shows "readlines (concat ls @ s) = ls @ readlines s"
  using assms
  by (simp add: readlines_def universal_newlines_append split_lines_full_lines)

section \<open>Replacing the last line\<close>

text \<open>
  C9, as the code has it. Take a file with at least one line. If its bytes do not
  decode, the call raises before the file is opened for writing. If they decode,
  \<open>edit_last_line\<close> succeeds and touches no other file. What it read is the lines
  before the last one followed by the last line, and what it writes is those same
  lines before the last one, unchanged and in order, followed by the supplied line;
  reading the new file gives the old lines before the last one followed by the lines
  of the supplied text. For a file without a carriage return what it read is the
  content of the file, so that the bytes of the lines before the last one are those
  of the file; a line end CRLF or CR of the file has become LF.
\<close>

theorem edit_last_line_preserves_preceding:
  assumes "files file_to_process = Some content" and "content \<noteq> []"
  shows "(\<not> utf8 content \<longrightarrow>
            edit_last_line file_to_process new_last_line files = Inl UnicodeDecodeError)
         \<and> (utf8 content \<longrightarrow>
              (\<exists>files'. edit_last_line file_to_process new_last_line files = Inr files'
                 \<and> (\<forall>p. p \<noteq> file_to_process \<longrightarrow> files' p = files p)
                 \<and> universal_newlines content
                     = concat (butlast (readlines content)) @ last (readlines content)
                 \<and> (CR \<notin> set content \<longrightarrow>
                      content = concat (butlast (readlines content)) @ last (readlines content))
                 \<and> files' file_to_process
                     = Some (concat (butlast (readlines content)) @ new_last_line)
                 \<and> readlines (concat (butlast (readlines content)) @ new_last_line)
                     = butlast (readlines content) @ readlines new_last_line))"
proof (intro conjI impI)
  assume "\<not> utf8 content"
  with assms(1) show "edit_last_line file_to_process new_last_line files = Inl UnicodeDecodeError"
    by (simp add: edit_last_line_def)
next
  assume decodes: "utf8 content"
  let ?data = "readlines content"
  from assms(2) have ne: "?data \<noteq> []"
    by (simp add: readlines_empty_iff)
  then have upd: "?data[length ?data - 1 := new_last_line] = butlast ?data @ [new_last_line]"
    by (metis append_butlast_last_id length_butlast list_update_length)
  have old: "universal_newlines content = concat (butlast ?data) @ last ?data"
  proof -
    have "concat ?data = concat (butlast ?data @ [last ?data])"
      using ne by simp
    then show ?thesis by (simp add: concat_readlines)
  qed
  have same: "content = concat (butlast ?data) @ last ?data" if "CR \<notin> set content"
    using old universal_newlines_id [OF that] by simp
  have res: "edit_last_line file_to_process new_last_line files
        = Inr (files(file_to_process \<mapsto> concat (butlast ?data) @ new_last_line))"
    using assms(1) decodes ne upd by (simp add: edit_last_line_def Let_def writelines_def)
  have rd: "readlines (concat (butlast ?data) @ new_last_line)
        = butlast ?data @ readlines new_last_line"
    by (rule readlines_full_lines [OF butlast_readlines_full butlast_readlines_no_CR])
  from res old same rd
  show "\<exists>files'. edit_last_line file_to_process new_last_line files = Inr files'
           \<and> (\<forall>p. p \<noteq> file_to_process \<longrightarrow> files' p = files p)
           \<and> universal_newlines content
               = concat (butlast (readlines content)) @ last (readlines content)
           \<and> (CR \<notin> set content \<longrightarrow>
                content = concat (butlast (readlines content)) @ last (readlines content))
           \<and> files' file_to_process
               = Some (concat (butlast (readlines content)) @ new_last_line)
           \<and> readlines (concat (butlast (readlines content)) @ new_last_line)
               = butlast (readlines content) @ readlines new_last_line"
    by simp
qed

text \<open>
  A structure file of two lines, with LF line ends: the title stays, byte for byte,
  and the box line is replaced. A file of the one byte \<^verbatim>\<open>0xFF\<close> is refused.
\<close>

theorem edit_last_line_witness:
  "utf8 (''title'' @ [LF] @ ''1 1 1'')
   \<and> CR \<notin> set (''title'' @ [LF] @ ''1 1 1'')
   \<and> readlines (''title'' @ [LF] @ ''1 1 1'') = [''title'' @ [LF], ''1 1 1'']
   \<and> edit_last_line ''a.gro'' ''   2.0   2.0   2.0'' [''a.gro'' \<mapsto> ''title'' @ [LF] @ ''1 1 1'']
       = Inr [''a.gro'' \<mapsto> ''title'' @ [LF] @ ''   2.0   2.0   2.0'']
   \<and> \<not> utf8 [CHR 0xFF]
   \<and> edit_last_line ''a.gro'' ''   2.0   2.0   2.0'' [''a.gro'' \<mapsto> [CHR 0xFF]]
       = Inl UnicodeDecodeError"
proof -
  define content where "content = ''title'' @ [LF] @ ''1 1 1''"
  define new_line where "new_line = ''   2.0   2.0   2.0''"
  define name where "name = ''a.gro''"
  have decodes: "utf8 content" and refused: "\<not> utf8 [CHR 0xFF]"
    by (simp_all add: content_def byte_def LF_def)
  have lf: "CR \<notin> set content"
    by (simp add: content_def CR_def LF_def)
  have lines: "readlines content = [''title'' @ [LF], ''1 1 1'']"
    by (simp add: content_def readlines_def CR_def LF_def)
  have stored: "[name \<mapsto> content] name = Some content" and nonempty: "content \<noteq> []"
    by (simp_all add: content_def)
  from edit_last_line_preserves_preceding
    [where files = "[name \<mapsto> content]" and file_to_process = name and content = content
       and new_last_line = new_line, OF stored nonempty] decodes
  obtain files' where res: "edit_last_line name new_line [name \<mapsto> content] = Inr files'"
    and frame: "\<forall>p. p \<noteq> name \<longrightarrow> files' p = [name \<mapsto> content] p"
    and new: "files' name = Some (concat (butlast (readlines content)) @ new_line)"
    by blast
  have "files' = [name \<mapsto> ''title'' @ [LF] @ new_line]"
  proof (rule ext)
    fix p
    show "files' p = [name \<mapsto> ''title'' @ [LF] @ new_line] p"
    proof (cases "p = name")
      case True
      with new lines show ?thesis by simp
    next
      case False
      with frame show ?thesis by simp
    qed
  qed
  with res have edited: "edit_last_line name new_line [name \<mapsto> content]
                           = Inr [name \<mapsto> ''title'' @ [LF] @ new_line]"
    by simp
  have stored': "[name \<mapsto> [CHR 0xFF]] name = Some [CHR 0xFF]" and nonempty': "[CHR 0xFF] \<noteq> []"
    by simp_all
  from edit_last_line_preserves_preceding
    [where files = "[name \<mapsto> [CHR 0xFF]]" and file_to_process = name
       and content = "[CHR 0xFF]" and new_last_line = new_line, OF stored' nonempty'] refused
  have raised: "edit_last_line name new_line [name \<mapsto> [CHR 0xFF]] = Inl UnicodeDecodeError"
    by blast
  from decodes lf lines edited refused raised show ?thesis
    unfolding content_def new_line_def name_def by blast
qed

text \<open>
  The claim C9 as it is stated fails on a file with other line ends, and on a file
  that does not decode. The lines \<^verbatim>\<open>a\<close> and \<^verbatim>\<open>b\<close> with the line ends CRLF come back
  with the line ends LF, so the bytes before the last line are not preserved; a
  single CR is a line end as well; and a file with the byte \<^verbatim>\<open>0xFF\<close> is not edited
  at all, the call raises.
\<close>

theorem edit_last_line_counterexample:
  "edit_last_line ''a.gro'' ''X''
       [''a.gro'' \<mapsto> [CHR ''a'', CR, LF, CHR ''b'', CR, LF, CHR ''c'']]
     = Inr [''a.gro'' \<mapsto> [CHR ''a'', LF, CHR ''b'', LF, CHR ''X'']]
   \<and> edit_last_line ''a.gro'' ''X'' [''a.gro'' \<mapsto> [CHR ''a'', CR, CHR ''b'']]
     = Inr [''a.gro'' \<mapsto> [CHR ''a'', LF, CHR ''X'']]
   \<and> edit_last_line ''a.gro'' ''X'' [''a.gro'' \<mapsto> [CHR ''a'', LF, CHR 0xFF]]
     = Inl UnicodeDecodeError"
  by (simp add: edit_last_line_def readlines_def writelines_def byte_def CR_def LF_def)

section \<open>Classifying the minimization log\<close>

lemma border_free_marker: "border_free overlap_marker"
  by (simp add: border_free_def overlap_marker_def upt_conv_Cons)

lemma py_split_acc_no_sep:
  "sep \<noteq> [] \<Longrightarrow> \<not> contains sep s \<Longrightarrow> py_split_acc sep cur s = [rev cur @ s]"
  by (induction s arbitrary: cur) simp_all

lemma py_split_acc_nonempty: "py_split_acc sep cur s \<noteq> []"
  by (induction sep cur s rule: py_split_acc.induct) simp_all

lemma prefix_overlap:
  assumes "prefix sep (pre @ sep @ rest)" and "length pre < length sep"
  shows "take (length sep - length pre) sep = drop (length pre) sep"
proof -
  from assms(1) have "sep = take (length sep) (pre @ sep @ rest)"
    by (metis append_eq_conv_conj prefix_def)
  also have "\<dots> = pre @ take (length sep - length pre) sep"
    using assms(2) by simp
  finally have "sep = pre @ take (length sep - length pre) sep" .
  then have "drop (length pre) sep = drop (length pre) (pre @ take (length sep - length pre) sep)"
    by simp
  then show ?thesis by simp
qed

lemma last_split_after_sep:
  assumes "border_free sep" and "\<not> contains sep rest"
  shows "last (py_split_acc sep cur (pre @ sep @ rest)) = rest"
proof (induction "length pre" arbitrary: pre cur rule: less_induct)
  case less
  from assms(1) have ne: "sep \<noteq> []"
    by (simp add: border_free_def)
  then obtain c cs where s: "pre @ sep @ rest = c # cs"
    by (cases "pre @ sep @ rest") auto
  show ?case
  proof (cases "prefix sep (pre @ sep @ rest)")
    case True
    have long: "pre = [] \<or> length sep \<le> length pre"
    proof (rule ccontr)
      assume "\<not> (pre = [] \<or> length sep \<le> length pre)"
      then have pre: "pre \<noteq> []" and short: "length pre < length sep"
        by simp_all
      let ?k = "length sep - length pre"
      from pre short have k: "?k \<in> set [1..<length sep]"
        by (cases pre) auto
      from prefix_overlap [OF True short] short
      have "take ?k sep = drop (length sep - ?k) sep"
        by simp
      with k assms(1) show False
        by (auto simp: border_free_def list_all_iff)
    qed
    from True ne s have step: "py_split_acc sep cur (pre @ sep @ rest)
        = rev cur # py_split_acc sep [] (drop (length sep) (pre @ sep @ rest))"
      by simp
    show ?thesis
    proof (cases "pre = []")
      case True
      with step ne assms(2) show ?thesis
        by (simp add: py_split_acc_no_sep)
    next
      case False
      with long have le: "length sep \<le> length pre"
        by simp
      then have "drop (length sep) (pre @ sep @ rest) = drop (length sep) pre @ sep @ rest"
        by simp
      moreover from False ne le have "length (drop (length sep) pre) < length pre"
        by (cases sep) auto
      ultimately show ?thesis
        using step less [of "drop (length sep) pre" "[]"]
        by (simp add: py_split_acc_nonempty)
    qed
  next
    case False
    with ne have "pre \<noteq> []"
      by (cases pre) auto
    then obtain p ps where pre: "pre = p # ps"
      by (cases pre) auto
    with False have "py_split_acc sep cur (pre @ sep @ rest)
        = py_split_acc sep (p # cur) (ps @ sep @ rest)"
      by simp
    with less [of ps "p # cur"] pre show ?thesis by simp
  qed
qed

lemma atom_id_after_marker:
  "\<not> contains overlap_marker rest \<Longrightarrow>
   last (py_split overlap_marker (pre @ overlap_marker @ rest)) = rest"
  by (simp add: py_split_def last_split_after_sep [OF border_free_marker])

lemma contains_prefix: "prefix sub s \<Longrightarrow> contains sub s"
  by (cases s) simp_all

lemma contains_append: "contains sub (pre @ sub @ rest)"
  by (induction pre) (simp_all add: contains_prefix)

text \<open>Decimal digits are ASCII, and none is a sign, an underscore or a space.\<close>

lemma is_digit_char:
  "is_digit c \<Longrightarrow>
     is_ascii c \<and> \<not> is_int_space c \<and> c \<noteq> CHR ''_'' \<and> c \<noteq> CHR ''-'' \<and> c \<noteq> CHR ''+''
     \<and> c \<noteq> CHR ''i''"
  by (auto simp: is_digit_def is_ascii_def byte_def is_int_space_def)

lemma is_int_space_char: "is_int_space c \<Longrightarrow> is_ascii c \<and> c \<noteq> CHR ''i''"
  by (auto simp: is_ascii_def byte_def is_int_space_def)

lemma digit_char_digit: "d < 10 \<Longrightarrow> is_digit (digit_char d) \<and> digit_val (digit_char d) = d"
proof -
  assume "d < 10"
  then have "d \<in> {0, 1, 2, 3, 4, 5, 6, 7, 8, 9}"
    by auto
  then show ?thesis
    by (auto simp: digit_char_def is_digit_def digit_val_def)
qed

text \<open>\<^verbatim>\<open>str\<close> of a natural number is its digits, a literal that \<^verbatim>\<open>int\<close> reads back.\<close>

lemma str_nat_nonempty: "str_nat n \<noteq> []"
  by (subst str_nat.simps) simp

lemma str_nat_digits: "list_all is_digit (str_nat n)"
proof (induction n rule: str_nat.induct)
  case (1 n)
  show ?case
  proof (cases "n < 10")
    case True
    then show ?thesis
      by (subst str_nat.simps) (simp add: digit_char_digit)
  next
    case False
    with 1 have "list_all is_digit (str_nat (n div 10))"
      by simp
    with False show ?thesis
      by (subst str_nat.simps) (simp add: digit_char_digit)
  qed
qed

lemma str_nat_value: "foldl (\<lambda>a c. 10 * a + digit_val c) 0 (str_nat n) = n"
proof (induction n rule: str_nat.induct)
  case (1 n)
  show ?case
  proof (cases "n < 10")
    case True
    then show ?thesis
      by (subst str_nat.simps) (simp add: digit_char_digit)
  next
    case False
    with 1 have "foldl (\<lambda>a c. 10 * a + digit_val c) 0 (str_nat (n div 10)) = n div 10"
      by simp
    with False show ?thesis
      by (subst str_nat.simps) (simp add: digit_char_digit)
  qed
qed

lemma no_adjacent_underscores: "CHR ''_'' \<notin> set s \<Longrightarrow> \<not> adjacent_underscores s"
  by (induction s rule: adjacent_underscores.induct) auto

lemma py_digits_str_nat:
  assumes "length (str_nat n) \<le> 4300"
  shows "py_digits (str_nat n) = Inr n"
proof -
  let ?s = "str_nat n"
  have digits: "\<forall>c \<in> set ?s. is_digit c"
    using str_nat_digits [of n] by (simp add: list_all_iff)
  have ne: "?s \<noteq> []"
    by (rule str_nat_nonempty)
  then have "hd ?s \<in> set ?s" and "last ?s \<in> set ?s"
    by simp_all
  with digits have ends: "hd ?s \<noteq> CHR ''_''" "last ?s \<noteq> CHR ''_''"
    using is_digit_char by blast+
  from digits have "CHR ''_'' \<notin> set ?s"
    using is_digit_char by blast
  then have adj: "\<not> adjacent_underscores ?s"
    by (rule no_adjacent_underscores)
  from digits have all: "list_all (\<lambda>c. is_digit c \<or> c = CHR ''_'') ?s"
    by (simp add: list_all_iff)
  from digits have same: "filter is_digit ?s = ?s"
    by (simp add: filter_id_conv)
  from ne ends adj all same assms show ?thesis
    by (simp add: py_digits_def str_nat_value)
qed

lemma int_strip_literal:
  assumes "list_all is_int_space ws" and "list_all is_int_space ws'"
    and "s \<noteq> []" and "\<not> is_int_space (hd s)" and "\<not> is_int_space (last s)"
  shows "int_strip (ws @ s @ ws') = s"
proof -
  from assms(1) have "dropWhile is_int_space (ws @ s @ ws') = dropWhile is_int_space (s @ ws')"
    by (simp add: list_all_iff dropWhile_append2)
  also from assms(3,4) have "\<dots> = s @ ws'"
    by (cases s) simp_all
  finally have front: "dropWhile is_int_space (ws @ s @ ws') = s @ ws'" .
  from assms(2) have "\<And>x. x \<in> set (rev ws') \<Longrightarrow> is_int_space x"
    by (simp add: list_all_iff)
  then have "dropWhile is_int_space (rev ws' @ rev s) = dropWhile is_int_space (rev s)"
    by (rule dropWhile_append2)
  also from assms(3,5) have "\<dots> = rev s"
    by (cases s rule: rev_cases) simp_all
  finally show ?thesis
    by (simp add: int_strip_def front)
qed

lemma py_int_str_nat:
  assumes "length (str_nat n) \<le> 4300"
    and "list_all is_int_space ws" and "list_all is_int_space ws'"
  shows "py_int unicode_int (ws @ str_nat n @ ws') = Inr (int n)"
proof -
  let ?s = "str_nat n"
  have digits: "\<forall>c \<in> set ?s. is_digit c"
    using str_nat_digits [of n] by (simp add: list_all_iff)
  have ne: "?s \<noteq> []"
    by (rule str_nat_nonempty)
  then obtain c cs where s: "?s = c # cs"
    by (cases ?s) auto
  from ne have "hd ?s \<in> set ?s" and "last ?s \<in> set ?s"
    by simp_all
  with digits have ends: "\<not> is_int_space (hd ?s)" "\<not> is_int_space (last ?s)"
    using is_digit_char by blast+
  from s digits have c: "c \<noteq> CHR ''-''" "c \<noteq> CHR ''+''"
    using is_digit_char by auto
  from digits assms(2,3) have ascii: "list_all is_ascii (ws @ ?s @ ws')"
    using is_digit_char is_int_space_char by (auto simp: list_all_iff)
  have "int_strip (ws @ ?s @ ws') = c # cs"
    using int_strip_literal [OF assms(2,3) ne ends] s by simp
  with ascii c have "py_int unicode_int (ws @ ?s @ ws') = map_sum id int (py_digits (c # cs))"
    by (simp add: py_int_def)
  with s py_digits_str_nat [OF assms(1)] show ?thesis
    by simp
qed

text \<open>
  A text with a character that is no digit, sign or underscore, the whitespace at its
  ends apart, is no literal.
\<close>

lemma py_int_invalid:
  assumes "list_all is_ascii s" and "x \<in> set (int_strip s)"
    and "\<not> is_digit x" and "x \<noteq> CHR ''_''" and "x \<noteq> CHR ''+''" and "x \<noteq> CHR ''-''"
  shows "py_int unicode_int s = Inl invalid_literal"
proof -
  from assms(2) obtain c cs where s: "int_strip s = c # cs"
    by (cases "int_strip s") auto
  have bad: "py_digits t = Inl invalid_literal" if "x \<in> set t" for t
  proof -
    from that assms(3,4) have "\<not> list_all (\<lambda>c. is_digit c \<or> c = CHR ''_'') t"
      by (auto simp: list_all_iff)
    then show ?thesis
      by (simp add: py_digits_def)
  qed
  show ?thesis
  proof (cases "c = CHR ''-'' \<or> c = CHR ''+''")
    case True
    with assms(2,5,6) s have "x \<in> set cs"
      by auto
    from bad [OF this] True assms(1) s show ?thesis
      by (auto simp: py_int_def)
  next
    case False
    from assms(2) s have "x \<in> set (c # cs)"
      by simp
    from bad [OF this] False assms(1) s show ?thesis
      by (simp add: py_int_def)
  qed
qed

lemma contains_head: "contains (c # sub) s \<Longrightarrow> c \<in> set s"
  by (induction s) auto

lemma no_marker_without_i: "CHR ''i'' \<notin> set s \<Longrightarrow> \<not> contains overlap_marker s"
  using contains_head [of "CHR ''i''" "''nf on atom ''" s]
  by (auto simp: overlap_marker_def)

text \<open>The first line that holds a marker decides.\<close>

lemma scan_log_find:
  "scan_log unicode_int logfile =
     (case find (\<lambda>line. contains overlap_marker line \<or> contains error_marker line) logfile of
        None \<Rightarrow> Inr None
      | Some line \<Rightarrow>
          if contains overlap_marker line
          then (case py_int unicode_int (last (py_split overlap_marker line)) of
                  Inl e \<Rightarrow> Inl e
                | Inr atom_id \<Rightarrow> Inr (Some atom_id))
          else Inl fatal_error)"
  by (induction logfile) simp_all

lemma find_after_clean:
  "\<forall>l \<in> set before. \<not> P l \<Longrightarrow> find P (before @ l # after) = (if P l then Some l else find P after)"
  by (induction before) simp_all

lemma find_clean: "\<forall>l \<in> set before. \<not> P l \<Longrightarrow> find P before = None"
  by (induction before) simp_all

text \<open>
  C3, as the code has it. Let the lines \<open>before\<close> hold neither marker. Then they
  alone are a success. Followed by a line with the overlap marker, whatever else that
  line and the lines after it hold, the result is that of \<^verbatim>\<open>int\<close> on the text from
  the (last) marker to the end of the line: when that text is the decimal number of
  an atom, with nothing but whitespace around it, the result is the overlap of this
  atom; when it holds a character that is no digit, sign or underscore, inside the
  whitespace at its ends, the call raises the \<^verbatim>\<open>ValueError\<close> of \<^verbatim>\<open>int\<close>. Followed by a
  line with \<open>ERROR\<close> and without the overlap marker the lines give the fatal error.
  So the lines are read in file order, the first line with a marker decides, and in
  one line the overlap marker goes before \<open>ERROR\<close>.
\<close>

theorem scan_log_first_match:
  assumes "\<forall>l \<in> set before. \<not> contains overlap_marker l \<and> \<not> contains error_marker l"
  shows "scan_log unicode_int before = Inr None
         \<and> (\<not> contains overlap_marker rest \<longrightarrow>
              scan_log unicode_int (before @ (pre @ overlap_marker @ rest) # after)
                = (case py_int unicode_int rest of
                     Inl e \<Rightarrow> Inl e
                   | Inr atom_id \<Rightarrow> Inr (Some atom_id)))
         \<and> (length (str_nat k) \<le> 4300 \<and> list_all is_int_space ws \<and> list_all is_int_space ws' \<longrightarrow>
              scan_log unicode_int (before @ (pre @ overlap_marker @ ws @ str_nat k @ ws') # after)
                = Inr (Some (int k)))
         \<and> (\<not> contains overlap_marker rest \<and> list_all is_ascii rest
              \<and> (\<exists>x \<in> set (int_strip rest).
                    \<not> is_digit x \<and> x \<noteq> CHR ''_'' \<and> x \<noteq> CHR ''+'' \<and> x \<noteq> CHR ''-'') \<longrightarrow>
              scan_log unicode_int (before @ (pre @ overlap_marker @ rest) # after)
                = Inl invalid_literal)
         \<and> (\<not> contains overlap_marker line \<and> contains error_marker line \<longrightarrow>
              scan_log unicode_int (before @ line # after) = Inl fatal_error)"
proof -
  let ?P = "\<lambda>line. contains overlap_marker line \<or> contains error_marker line"
  from assms have clean: "\<forall>l \<in> set before. \<not> ?P l"
    by simp
  have none: "scan_log unicode_int before = Inr None"
    by (simp add: scan_log_find find_clean [OF clean])
  have overlap: "scan_log unicode_int (before @ (pre @ overlap_marker @ r) # after)
                = (case py_int unicode_int r of
                     Inl e \<Rightarrow> Inl e
                   | Inr atom_id \<Rightarrow> Inr (Some atom_id))"
    if "\<not> contains overlap_marker r" for r
    using that
    by (simp add: scan_log_find find_after_clean [OF clean] contains_append
          atom_id_after_marker)
  have number: "scan_log unicode_int (before @ (pre @ overlap_marker @ ws @ str_nat k @ ws') # after)
                = Inr (Some (int k))"
    if "length (str_nat k) \<le> 4300 \<and> list_all is_int_space ws \<and> list_all is_int_space ws'"
  proof -
    from that have short: "length (str_nat k) \<le> 4300"
      and ws: "list_all is_int_space ws" and ws': "list_all is_int_space ws'"
      by blast+
    have "c \<noteq> CHR ''i''" if "c \<in> set (ws @ str_nat k @ ws')" for c
    proof -
      from that consider "c \<in> set ws" | "c \<in> set (str_nat k)" | "c \<in> set ws'"
        by auto
      then show ?thesis
      proof cases
        case 1
        with ws have "is_int_space c" by (simp add: list_all_iff)
        then show ?thesis by (simp add: is_int_space_char)
      next
        case 2
        with str_nat_digits [of k] have "is_digit c" by (simp add: list_all_iff)
        then show ?thesis by (simp add: is_digit_char)
      next
        case 3
        with ws' have "is_int_space c" by (simp add: list_all_iff)
        then show ?thesis by (simp add: is_int_space_char)
      qed
    qed
    then have "CHR ''i'' \<notin> set (ws @ str_nat k @ ws')"
      by blast
    then have "\<not> contains overlap_marker (ws @ str_nat k @ ws')"
      by (rule no_marker_without_i)
    from overlap [OF this]
    have "scan_log unicode_int (before @ (pre @ overlap_marker @ ws @ str_nat k @ ws') # after)
            = (case py_int unicode_int (ws @ str_nat k @ ws') of
                 Inl e \<Rightarrow> Inl e
               | Inr atom_id \<Rightarrow> Inr (Some atom_id))" .
    also have "py_int unicode_int (ws @ str_nat k @ ws') = Inr (int k)"
      by (rule py_int_str_nat [OF short ws ws'])
    finally show ?thesis
      by simp
  qed
  have invalid: "scan_log unicode_int (before @ (pre @ overlap_marker @ rest) # after)
                = Inl invalid_literal"
    if "\<not> contains overlap_marker rest \<and> list_all is_ascii rest
          \<and> (\<exists>x \<in> set (int_strip rest).
                \<not> is_digit x \<and> x \<noteq> CHR ''_'' \<and> x \<noteq> CHR ''+'' \<and> x \<noteq> CHR ''-'')"
  proof -
    from that obtain x where "x \<in> set (int_strip rest)" and "\<not> is_digit x"
      and "x \<noteq> CHR ''_''" and "x \<noteq> CHR ''+''" and "x \<noteq> CHR ''-''"
      by blast
    with that have "py_int unicode_int rest = Inl invalid_literal"
      by (simp add: py_int_invalid)
    with overlap [of rest] that show ?thesis
      by simp
  qed
  have fatal: "scan_log unicode_int (before @ line # after) = Inl fatal_error"
    if "\<not> contains overlap_marker line \<and> contains error_marker line"
    using that by (simp add: scan_log_find find_after_clean [OF clean])
  from none overlap [of rest] number invalid fatal show ?thesis by blast
qed

text \<open>
  The line \<^verbatim>\<open>Fatal error: inf on atom 42\<close> gives the overlap of atom 42, also after
  a line without a marker and before an \<open>ERROR\<close> line; \<^verbatim>\<open>ERROR: blah\<close> alone
  gives the fatal error; a line with both markers gives the overlap; and a line with
  a full stop after the number raises the error of \<^verbatim>\<open>int\<close>.
\<close>

theorem scan_log_first_match_witness:
  "scan_log no_unicode_int [''Fatal error: inf on atom 42''] = Inr (Some 42)
   \<and> scan_log no_unicode_int
         [''Steepest Descents:'', ''Fatal error: inf on atom 42'' @ [LF], ''ERROR: blah'']
       = Inr (Some 42)
   \<and> scan_log no_unicode_int [''Steepest Descents:'', ''ERROR: blah''] = Inl fatal_error
   \<and> scan_log no_unicode_int [''ERROR: inf on atom +7''] = Inr (Some 7)
   \<and> scan_log no_unicode_int [''Fatal error: inf on atom 42.''] = Inl invalid_literal
   \<and> scan_log no_unicode_int [''Steepest Descents:''] = Inr None"
proof -
  have int7: "py_int no_unicode_int ''+7'' = Inr 7"
    by (simp add: py_int_def int_strip_def is_int_space_def is_ascii_def byte_def py_digits_def
          is_digit_def digit_val_def)
  have str42: "str_nat 42 = ''42''"
    by (simp add: str_nat.simps digit_char_def)
  then have short: "length (str_nat 42) \<le> 4300"
    by simp
  have clean: "\<forall>l \<in> set [''Steepest Descents:''].
                 \<not> contains overlap_marker l \<and> \<not> contains error_marker l"
    "\<forall>l \<in> set ([] :: string list). \<not> contains overlap_marker l \<and> \<not> contains error_marker l"
    by (simp_all add: overlap_marker_def error_marker_def)
  have rest: "\<not> contains overlap_marker ''+7''" "\<not> contains overlap_marker ''42.''"
    by (simp_all add: overlap_marker_def)
  have spaces: "list_all is_int_space []" "list_all is_int_space [LF]"
    by (simp_all add: is_int_space_def LF_def)
  have ascii: "list_all is_ascii ''42.''"
    by (simp add: is_ascii_def byte_def)
  have "CHR ''.'' \<in> set (int_strip ''42.'')" and "\<not> is_digit CHR ''.''"
    by (simp_all add: int_strip_def is_int_space_def is_digit_def)
  then have stop: "\<exists>x \<in> set (int_strip ''42.'').
        \<not> is_digit x \<and> x \<noteq> CHR ''_'' \<and> x \<noteq> CHR ''+'' \<and> x \<noteq> CHR ''-''"
    by (intro bexI [of _ "CHR ''.''"]) simp_all
  have err: "\<not> contains overlap_marker ''ERROR: blah'' \<and> contains error_marker ''ERROR: blah''"
    by (simp add: overlap_marker_def error_marker_def)
  from scan_log_first_match
    [OF clean(2), where k = 42 and ws = "[]" and ws' = "[]" and pre = "''Fatal error: ''"
       and after = "[]" and unicode_int = no_unicode_int] spaces short
  have "scan_log no_unicode_int
          ([] @ (''Fatal error: '' @ overlap_marker @ [] @ str_nat 42 @ []) # []) = Inr (Some 42)"
    by simp
  then have a: "scan_log no_unicode_int [''Fatal error: inf on atom 42''] = Inr (Some 42)"
    by (simp add: overlap_marker_def str42)
  from scan_log_first_match
    [OF clean(1), where k = 42 and ws = "[]" and ws' = "[LF]" and pre = "''Fatal error: ''"
       and after = "[''ERROR: blah'']" and unicode_int = no_unicode_int] spaces short
  have "scan_log no_unicode_int
          ([''Steepest Descents:'']
             @ (''Fatal error: '' @ overlap_marker @ [] @ str_nat 42 @ [LF]) # [''ERROR: blah''])
        = Inr (Some 42)"
    by simp
  then have b: "scan_log no_unicode_int
             [''Steepest Descents:'', ''Fatal error: inf on atom 42'' @ [LF], ''ERROR: blah'']
           = Inr (Some 42)"
    by (simp add: overlap_marker_def str42)
  from scan_log_first_match
    [OF clean(1), where line = "''ERROR: blah''" and after = "[]"
       and unicode_int = no_unicode_int] err
  have "scan_log no_unicode_int ([''Steepest Descents:''] @ ''ERROR: blah'' # []) = Inl fatal_error"
    by blast
  then have c: "scan_log no_unicode_int [''Steepest Descents:'', ''ERROR: blah''] = Inl fatal_error"
    by simp
  from scan_log_first_match
    [OF clean(2), where rest = "''+7''" and pre = "''ERROR: ''" and after = "[]"
       and unicode_int = no_unicode_int] rest(1)
  have "scan_log no_unicode_int ([] @ (''ERROR: '' @ overlap_marker @ ''+7'') # [])
        = (case py_int no_unicode_int ''+7'' of Inl e \<Rightarrow> Inl e | Inr atom_id \<Rightarrow> Inr (Some atom_id))"
    by blast
  then have d: "scan_log no_unicode_int [''ERROR: inf on atom +7''] = Inr (Some 7)"
    by (simp add: overlap_marker_def int7)
  from scan_log_first_match
    [OF clean(2), where rest = "''42.''" and pre = "''Fatal error: ''" and after = "[]"
       and unicode_int = no_unicode_int] rest(2) ascii stop
  have "scan_log no_unicode_int ([] @ (''Fatal error: '' @ overlap_marker @ ''42.'') # [])
        = Inl invalid_literal"
    by blast
  then have e: "scan_log no_unicode_int [''Fatal error: inf on atom 42.''] = Inl invalid_literal"
    by (simp add: overlap_marker_def)
  from scan_log_first_match [OF clean(1), where unicode_int = no_unicode_int]
  have f: "scan_log no_unicode_int [''Steepest Descents:''] = Inr None"
    by blast
  from a b c d e f show ?thesis by blast
qed

text \<open>
  The claim C3 as it is stated fails on a line that holds the overlap marker and
  more text after the number: the claim gives the overlap of atom 5 for each of
  these lines, the code raises the \<^verbatim>\<open>ValueError\<close> of \<^verbatim>\<open>int\<close>.
\<close>

theorem scan_log_counterexample:
  "scan_log no_unicode_int [''Fatal error: inf on atom 5 (see log)'' @ [LF]]
     = Inl invalid_literal
   \<and> scan_log no_unicode_int [''Maximum force = inf on atom 5, step 3'' @ [LF]]
     = Inl invalid_literal"
  by (simp add: overlap_marker_def error_marker_def py_split_def py_int_def int_strip_def
        is_int_space_def is_ascii_def byte_def py_digits_def is_digit_def LF_def)

section \<open>The geometric schedule\<close>

text \<open>
  C4. For positive scales and at least one step the ratio is computed without error,
  it is positive, and \<open>steps\<close> compressions by it take \<open>starting_scale\<close> to
  \<open>end_scale\<close> exactly (over the reals).
\<close>

theorem schedule_reaches_end_scale:
  assumes "0 < starting_scale" and "0 < end_scale" and "1 \<le> steps"
  shows "\<exists>ratio. stepwise_compression starting_scale end_scale steps = Inr ratio
           \<and> ratio = (end_scale / starting_scale) powr (1 / real steps)
           \<and> 0 < ratio \<and> starting_scale * ratio ^ steps = end_scale"
proof -
  let ?q = "end_scale / starting_scale"
  let ?r = "?q powr (1 / real steps)"
  from assms have q: "0 < ?q" by simp
  from assms have r: "0 < ?r" by simp
  have "?r ^ steps = ?r powr real steps"
    using r by (simp add: powr_realpow)
  also have "\<dots> = ?q powr (1 / real steps * real steps)"
    by (simp add: powr_powr)
  also have "\<dots> = ?q"
    using assms by simp
  finally have "starting_scale * ?r ^ steps = end_scale"
    using assms(1) by simp
  with r assms show ?thesis
    by (simp add: stepwise_compression_def)
qed

theorem schedule_witness:
  "\<exists>ratio. stepwise_compression 1.15 0.95 5 = Inr ratio \<and> 0 < ratio
     \<and> 1.15 * ratio ^ 5 = 0.95"
  using schedule_reaches_end_scale [of "1.15" "0.95" 5] by simp

section \<open>Scaling about the centre of the anchor\<close>

lemma fold_update_count:
  "fold (\<lambda>atom s. s(atom := g (s atom))) xs st a = (g ^^ count_list xs a) (st a)"
proof (induction xs arbitrary: st)
  case Nil
  show ?case by simp
next
  case (Cons x xs)
  let ?f = "\<lambda>atom s. s(atom := g (s atom))"
  have "fold ?f (x # xs) st a = fold ?f xs (st(x := g (st x))) a"
    by simp
  also have "\<dots> = (g ^^ count_list xs a) ((st(x := g (st x))) a)"
    by (rule Cons.IH)
  also have "\<dots> = (g ^^ count_list (x # xs) a) (st a)"
    by (cases "x = a") (simp_all add: funpow_swap1)
  finally show ?case .
qed

text \<open>An atom is scaled once for each time the moving group lists it.\<close>

lemma stretch_relative_apply:
  assumes "center st anchor = Some c"
  shows "stretch_relative to_strech anchor s st
           = Inr (\<lambda>a. (stretch_atom c s ^^ count_list to_strech a) (st a))"
proof -
  have "fold (\<lambda>atom s'. s'(atom := stretch_atom c s (s' atom))) to_strech st
          = (\<lambda>a. (stretch_atom c s ^^ count_list to_strech a) (st a))"
    by (rule ext) (rule fold_update_count)
  with assms show ?thesis
    by (simp add: stretch_relative_def)
qed

lemma stretch_relative_no_center:
  "anchor = [] \<Longrightarrow>
   stretch_relative to_strech anchor s st = (if to_strech = [] then Inr st else Inl IndexError)"
  by (simp add: stretch_relative_def center_def)

lemma center_nonempty:
  "anchor \<noteq> [] \<Longrightarrow>
   center st anchor
     = Some (sum_list (map (\<lambda>a. pos_x (st a)) anchor) / real (length anchor),
             sum_list (map (\<lambda>a. pos_y (st a)) anchor) / real (length anchor),
             sum_list (map (\<lambda>a. pos_z (st a)) anchor) / real (length anchor))"
  by (simp add: center_def)

lemma stretch_atom_one: "stretch_atom c 1 p = p"
  by (simp add: stretch_atom_def pos_x_def pos_y_def pos_z_def)

lemma stretch_atom_inverse: "s \<noteq> 0 \<Longrightarrow> stretch_atom c (1 / s) (stretch_atom c s p) = p"
  by (simp add: stretch_atom_def pos_x_def pos_y_def pos_z_def)

lemma stretch_atom_pow_z: "pos_z ((stretch_atom c s ^^ k) p) = pos_z p"
  by (induction k) (simp_all add: stretch_atom_def pos_z_def)

lemma stretch_atom_pow_one: "(stretch_atom c 1 ^^ k) p = p"
  by (induction k) (simp_all add: stretch_atom_one)

lemma funpow_left_inverse:
  fixes f g :: "'a \<Rightarrow> 'a"
  assumes "\<And>x. f (g x) = x"
  shows "(f ^^ k) ((g ^^ k) p) = p"
proof (induction k)
  case 0
  show ?case by simp
next
  case (Suc k)
  have "(f ^^ Suc k) ((g ^^ Suc k) p) = (f ^^ k) (f (g ((g ^^ k) p)))"
    by (simp add: funpow_swap1)
  with Suc assms show ?case by simp
qed

lemma count_list_distinct: "distinct xs \<Longrightarrow> a \<in> set xs \<Longrightarrow> count_list xs a = 1"
  by (induction xs) auto

text \<open>
  C5. The centre is the mean of the anchor's positions, each atom with the same
  weight (the anchor has an atom, or there is no mean). For a moving group that
  lists each of its atoms once, the call puts every atom of the group at
  \<open>center + s * (old - center)\<close> on the axes 0 and 1; it leaves axis 2 of every
  atom as it was, and every atom outside the group where it was. The function takes
  the coordinate store and gives the updated store: there is no other result and no
  file in it.
\<close>

theorem stretch_relative_in_plane:
  assumes "distinct to_strech" and "anchor \<noteq> []"
  shows "\<exists>c st'.
           center st anchor = Some c
         \<and> c = (sum_list (map (\<lambda>a. pos_x (st a)) anchor) / real (length anchor),
                sum_list (map (\<lambda>a. pos_y (st a)) anchor) / real (length anchor),
                sum_list (map (\<lambda>a. pos_z (st a)) anchor) / real (length anchor))
         \<and> stretch_relative to_strech anchor s st = Inr st'
         \<and> (\<forall>atom \<in> set to_strech.
               pos_x (st' atom) = pos_x c + s * (pos_x (st atom) - pos_x c)
             \<and> pos_y (st' atom) = pos_y c + s * (pos_y (st atom) - pos_y c))
         \<and> (\<forall>atom. pos_z (st' atom) = pos_z (st atom))
         \<and> (\<forall>atom. atom \<notin> set to_strech \<longrightarrow> st' atom = st atom)"
proof -
  let ?c = "(sum_list (map (\<lambda>a. pos_x (st a)) anchor) / real (length anchor),
             sum_list (map (\<lambda>a. pos_y (st a)) anchor) / real (length anchor),
             sum_list (map (\<lambda>a. pos_z (st a)) anchor) / real (length anchor))"
  let ?st' = "\<lambda>a. (stretch_atom ?c s ^^ count_list to_strech a) (st a)"
  from assms(2) have c: "center st anchor = Some ?c"
    by (rule center_nonempty)
  then have res: "stretch_relative to_strech anchor s st = Inr ?st'"
    by (rule stretch_relative_apply)
  have moved: "?st' atom = stretch_atom ?c s (st atom)" if "atom \<in> set to_strech" for atom
    using that assms(1) by (simp add: count_list_distinct)
  have in_plane: "pos_x (stretch_atom ?c s p) = pos_x ?c + s * (pos_x p - pos_x ?c)
         \<and> pos_y (stretch_atom ?c s p) = pos_y ?c + s * (pos_y p - pos_y ?c)" for p
    by (simp add: stretch_atom_def pos_x_def pos_y_def)
  have z: "pos_z (?st' atom) = pos_z (st atom)" for atom
    by (rule stretch_atom_pow_z)
  have rest: "?st' atom = st atom" if "atom \<notin> set to_strech" for atom
    using that by simp
  from moved in_plane have xy: "\<forall>atom \<in> set to_strech.
               pos_x (?st' atom) = pos_x ?c + s * (pos_x (st atom) - pos_x ?c)
             \<and> pos_y (?st' atom) = pos_y ?c + s * (pos_y (st atom) - pos_y ?c)"
    by simp
  from c res xy z rest show ?thesis
    by blast
qed

theorem stretch_relative_in_plane_witness:
  "distinct [1::nat, 2] \<and> [0::nat] \<noteq> []
   \<and> center (\<lambda>i. if i = (0::nat) then (1, 1, 1) else (3, 5, 7)) [0] = Some (1, 1, 1)
   \<and> stretch_relative [1, 2] [0] 2 (\<lambda>i. if i = (0::nat) then (1, 1, 1) else (3, 5, 7))
       = Inr ((\<lambda>i. if i = (0::nat) then (1, 1, 1) else (3, 5, 7))
               (1 := (5, 9, 7), 2 := (5, 9, 7)))"
  using stretch_relative_in_plane
    [of "[1::nat, 2]" "[0]" "\<lambda>i. if i = (0::nat) then (1, 1, 1) else (3, 5, 7)" 2]
  by (simp add: stretch_relative_def center_def stretch_atom_def pos_x_def pos_y_def pos_z_def)

text \<open>
  When no atom of the anchor is in the moving group, the call leaves the centre of
  the anchor where it was.
\<close>

lemma center_after_stretch:
  assumes "set anchor \<inter> set to_strech = {}"
    and "stretch_relative to_strech anchor s st = Inr st1"
  shows "center st1 anchor = center st anchor"
proof (cases "anchor = []")
  case True
  then show ?thesis by (simp add: center_def)
next
  case False
  then obtain c where c: "center st anchor = Some c"
    by (simp add: center_def)
  from stretch_relative_apply [OF c] assms(2)
  have st1: "st1 = (\<lambda>a. (stretch_atom c s ^^ count_list to_strech a) (st a))"
    by simp
  have "st1 a = st a" if "a \<in> set anchor" for a
  proof -
    from that assms(1) have "count_list to_strech a = 0"
      by (auto simp: count_list_0_iff)
    then show ?thesis by (simp add: st1)
  qed
  then have same: "map (\<lambda>a. f (st1 a)) anchor = map (\<lambda>a. f (st a)) anchor"
    for f :: "position \<Rightarrow> real"
    by simp
  show ?thesis by (simp only: center_def same)
qed

text \<open>
  C7, as the code has it. With the scale factor 1 the call changes no position (with
  an empty anchor and a moving atom it raises before it changes any). A call returns
  whenever the anchor has an atom. With a factor \<open>s\<close> other than zero and then
  \<open>1 / s\<close>, the two calls together restore every position when the centre of the
  anchor is the same at both calls (as it is when no anchor atom is in the moving
  group). No call changes axis 2 of any atom.
\<close>

theorem stretch_relative_identity_inverse:
  "stretch_relative to_strech anchor 1 st
     = (if anchor = [] \<and> to_strech \<noteq> [] then Inl IndexError else Inr st)
   \<and> (anchor \<noteq> [] \<longrightarrow> (\<exists>st1. stretch_relative to_strech anchor s st = Inr st1))
   \<and> (\<forall>st1. s \<noteq> 0 \<and> stretch_relative to_strech anchor s st = Inr st1
              \<and> center st1 anchor = center st anchor
          \<longrightarrow> stretch_relative to_strech anchor (1 / s) st1 = Inr st)
   \<and> (\<forall>st1 atom. stretch_relative to_strech anchor s st = Inr st1
          \<longrightarrow> pos_z (st1 atom) = pos_z (st atom))"
proof (cases "anchor = []")
  case True
  then show ?thesis
    by (auto simp: stretch_relative_no_center split: if_splits)
next
  case False
  then obtain c where c: "center st anchor = Some c"
    by (simp add: center_def)
  let ?st1 = "\<lambda>a. (stretch_atom c s ^^ count_list to_strech a) (st a)"
  have run: "stretch_relative to_strech anchor s st = Inr ?st1"
    by (rule stretch_relative_apply [OF c])
  have one: "stretch_relative to_strech anchor 1 st = Inr st"
    by (simp add: stretch_relative_apply [OF c] stretch_atom_pow_one)
  have undo: "stretch_relative to_strech anchor (1 / s) ?st1 = Inr st"
    if "s \<noteq> 0" and "center ?st1 anchor = center st anchor"
  proof -
    from that(2) c have "center ?st1 anchor = Some c"
      by simp
    from stretch_relative_apply [OF this]
    have "stretch_relative to_strech anchor (1 / s) ?st1
            = Inr (\<lambda>a. (stretch_atom c (1 / s) ^^ count_list to_strech a)
                         ((stretch_atom c s ^^ count_list to_strech a) (st a)))" .
    moreover from that(1) have "(stretch_atom c (1 / s) ^^ k) ((stretch_atom c s ^^ k) p) = p"
      for k p
      by (intro funpow_left_inverse stretch_atom_inverse)
    ultimately show ?thesis by simp
  qed
  have z: "pos_z (?st1 atom) = pos_z (st atom)" for atom
    by (rule stretch_atom_pow_z)
  from False one run undo z show ?thesis
    by auto
qed

theorem stretch_relative_identity_inverse_witness:
  "(2::real) \<noteq> 0
   \<and> stretch_relative [1] [0] 2 (\<lambda>i. if i = (0::nat) then (1, 1, 1) else (3, 5, 7))
       = Inr ((\<lambda>i. if i = (0::nat) then (1, 1, 1) else (3, 5, 7))(1 := (5, 9, 7)))
   \<and> center ((\<lambda>i. if i = (0::nat) then (1, 1, 1) else (3, 5, 7))(1 := (5, 9, 7))) [0]
       = center (\<lambda>i. if i = (0::nat) then (1, 1, 1) else (3, 5, 7)) [0]
   \<and> stretch_relative [1] [0] (1 / 2)
        ((\<lambda>i. if i = (0::nat) then (1, 1, 1) else (3, 5, 7))(1 := (5, 9, 7)))
       = Inr (\<lambda>i. if i = (0::nat) then (1, 1, 1) else (3, 5, 7))"
proof -
  let ?st = "\<lambda>i. if i = (0::nat) then (1, 1, 1) else (3, 5, 7 :: real)"
  let ?st1 = "?st(1 := (5, 9, 7))"
  have run: "stretch_relative [1] [0] 2 ?st = Inr ?st1"
    by (simp add: stretch_relative_def center_def stretch_atom_def pos_x_def pos_y_def
          pos_z_def)
  have same: "center ?st1 [0] = center ?st [0]"
    by (rule center_after_stretch [OF _ run]) simp
  from stretch_relative_identity_inverse [of "[1]" "[0]" ?st 2] run same
  have "stretch_relative [1] [0] (1 / 2) ?st1 = Inr ?st"
    by simp
  with run same show ?thesis by simp
qed

text \<open>
  The claim C7 as it is stated fails when the two groups overlap: the first call moves
  an atom of the anchor, so the second call scales about another centre. Here the
  anchor is the whole two-atom system and the moving group is its second atom, at
  \<open>x = 2\<close>; the factor \<open>2\<close> takes it to \<open>x = 3\<close> and the factor \<open>1 / 2\<close> then
  to \<open>x = 9 / 4\<close>.
\<close>

theorem stretch_relative_inverse_counterexample:
  "stretch_relative [1] [0, 1] 2 (\<lambda>i. if i = (0::nat) then (0, 0, 0) else (2, 0, 0))
     = Inr ((\<lambda>i. if i = (0::nat) then (0, 0, 0) else (2, 0, 0))(1 := (3, 0, 0)))
   \<and> stretch_relative [1] [0, 1] (1 / 2)
        ((\<lambda>i. if i = (0::nat) then (0, 0, 0) else (2, 0, 0))(1 := (3, 0, 0)))
       = Inr ((\<lambda>i. if i = (0::nat) then (0, 0, 0) else (2, 0, 0))
               (1 := (3, 0, 0), 1 := (9 / 4, 0, 0)))
   \<and> pos_x (((\<lambda>i. if i = (0::nat) then (0, 0, 0) else (2, 0, 0))
               (1 := (3, 0, 0), 1 := (9 / 4, 0, 0))) 1) = 9 / 4
   \<and> pos_x ((\<lambda>i. if i = (0::nat) then (0, 0, 0) else (2, 0, 0)) 1) = 2"
  by (simp add: stretch_relative_def center_def stretch_atom_def pos_x_def pos_y_def pos_z_def)

section \<open>Scaling the box-size line\<close>

lemma round_half_even_close: "\<bar>of_int (round_half_even x) - x\<bar> \<le> 1 / 2"
proof -
  have "of_int \<lfloor>x\<rfloor> \<le> x" and "x < of_int \<lfloor>x\<rfloor> + 1"
    by linarith+
  then show ?thesis
    by (auto simp: round_half_even_def Let_def)
qed

lemma round_half_even_of_int: "round_half_even (of_int k) = k"
  by (simp add: round_half_even_def)

lemma py_round_close: "\<bar>py_round x n - x\<bar> \<le> 1 / (2 * 10 ^ n)"
proof -
  let ?p = "(10::real) ^ n"
  have p: "0 < ?p" by simp
  have "\<bar>py_round x n - x\<bar> = \<bar>of_int (round_half_even (x * ?p)) - x * ?p\<bar> / ?p"
    using p by (simp add: py_round_def field_simps abs_mult abs_divide)
  also have "\<dots> \<le> (1 / 2) / ?p"
    by (rule divide_right_mono [OF round_half_even_close]) simp
  finally show ?thesis by simp
qed

lemma py_round_decimals: "py_round x n * 10 ^ n \<in> \<int>"
  by (simp add: py_round_def)

lemma py_round_exact: "x * 10 ^ n \<in> \<int> \<Longrightarrow> py_round x n = x"
proof -
  assume "x * 10 ^ n \<in> \<int>"
  then obtain k where k: "x * 10 ^ n = of_int k"
    by (auto elim: Ints_cases)
  then have "py_round x n = of_int k / 10 ^ n"
    by (simp add: py_round_def round_half_even_of_int)
  also have "\<dots> = x"
    using k [symmetric] by simp
  finally show ?thesis .
qed

lemma scaled_dimensions_ok:
  "map pf xs = map Some vs \<Longrightarrow> n + length xs \<le> length scale \<Longrightarrow>
   scaled_dimensions pf scale n xs = Inr (map2 (\<lambda>v c. py_round (v * c) 5) vs (drop n scale))"
proof (induction xs arbitrary: n vs)
  case Nil
  then show ?case by simp
next
  case (Cons x xs)
  from Cons.prems(1) obtain v vs' where vs: "vs = v # vs'" and v: "pf x = Some v"
    and rest: "map pf xs = map Some vs'"
    by (cases vs) auto
  from Cons.prems(2) have n: "n < length scale" and m: "Suc n + length xs \<le> length scale"
    by simp_all
  from n have "drop n scale = scale ! n # drop (Suc n) scale"
    by (simp add: Cons_nth_drop_Suc)
  with Cons.IH [OF rest m] v vs n show ?case by simp
qed

lemma scaled_dimensions_too_long:
  "n \<le> length scale \<Longrightarrow> length scale < n + length xs \<Longrightarrow>
   \<exists>e. scaled_dimensions pf scale n xs = Inl e"
proof (induction xs arbitrary: n)
  case Nil
  then show ?case by simp
next
  case (Cons x xs)
  show ?case
  proof (cases "pf x")
    case None
    then show ?thesis by simp
  next
    case (Some v)
    show ?thesis
    proof (cases "n < length scale")
      case True
      with Cons.prems have "Suc n \<le> length scale" and "length scale < Suc n + length xs"
        by simp_all
      from Cons.IH [OF this] obtain e where "scaled_dimensions pf scale (Suc n) xs = Inl e" ..
      with Some True show ?thesis by simp
    next
      case False
      with Some show ?thesis by simp
    qed
  qed
qed

lemma scaled_dimensions_index_error:
  "n \<le> length scale \<Longrightarrow> length scale < n + length xs \<Longrightarrow>
   \<forall>x \<in> set (take (Suc (length scale - n)) xs). pf x \<noteq> None \<Longrightarrow>
   scaled_dimensions pf scale n xs = Inl IndexError"
proof (induction xs arbitrary: n)
  case Nil
  then show ?case by simp
next
  case (Cons x xs)
  from Cons.prems(3) obtain v where v: "pf x = Some v"
    by auto
  show ?case
  proof (cases "n < length scale")
    case True
    with Cons.prems have a: "Suc n \<le> length scale" and b: "length scale < Suc n + length xs"
      by simp_all
    from True have "length scale - n = Suc (length scale - Suc n)"
      by simp
    with Cons.prems(3) have c: "\<forall>x \<in> set (take (Suc (length scale - Suc n)) xs). pf x \<noteq> None"
      by simp
    from Cons.IH [OF a b c] v True show ?thesis by simp
  next
    case False
    with v show ?thesis by simp
  qed
qed

lemma split_ws_acc_token:
  "\<forall>c \<in> set tok. \<not> is_space c \<Longrightarrow> split_ws_acc cur (tok @ rest) = split_ws_acc (rev tok @ cur) rest"
  by (induction tok arbitrary: cur) simp_all

lemma split_ws_acc_spaces:
  "split_ws_acc [] (replicate k (CHR '' '') @ rest) = split_ws_acc [] rest"
  by (induction k) (simp_all add: is_space_def)

lemma split_ws_acc_field:
  assumes "tok \<noteq> []" and "\<forall>c \<in> set tok. \<not> is_space c" and "rest \<noteq> []" and "is_space (hd rest)"
  shows "split_ws_acc [] (rjust w tok @ rest) = tok # split_ws_acc [] rest"
proof -
  from assms(3) obtain c r where rest: "rest = c # r"
    by (cases rest) auto
  with assms(4) have c: "is_space c" by simp
  have "split_ws_acc [] (rjust w tok @ rest) = split_ws_acc [] (tok @ rest)"
    by (simp add: rjust_def split_ws_acc_spaces)
  also have "\<dots> = split_ws_acc (rev tok) rest"
    using assms(2) by (simp add: split_ws_acc_token)
  also have "\<dots> = tok # split_ws_acc [] rest"
    using assms(1) c rest by simp
  finally show ?thesis .
qed

lemma split_ws_fields:
  assumes "\<forall>t \<in> set toks. t \<noteq> [] \<and> length t < w \<and> (\<forall>c \<in> set t. \<not> is_space c)"
  shows "split_ws (concat (map (rjust w) toks) @ [LF]) = toks"
  using assms
proof (induction toks)
  case Nil
  show ?case by (simp add: split_ws_def is_space_def LF_def)
next
  case (Cons t toks)
  let ?rest = "concat (map (rjust w) toks) @ [LF]"
  have ne: "?rest \<noteq> []" by simp
  have sp: "is_space (hd ?rest)"
  proof (cases toks)
    case Nil
    then show ?thesis by (simp add: is_space_def LF_def)
  next
    case (Cons u us)
    with Cons.prems have "length u < w" by simp
    then obtain k where "w - length u = Suc k"
      by (cases "w - length u") auto
    with Cons show ?thesis by (simp add: rjust_def is_space_def)
  qed
  from Cons.prems have t: "t \<noteq> []" "\<forall>c \<in> set t. \<not> is_space c"
    by simp_all
  have "split_ws_acc [] (rjust w t @ ?rest) = t # split_ws_acc [] ?rest"
    by (rule split_ws_acc_field [OF t ne sp])
  with Cons.IH Cons.prems show ?case
    by (simp add: split_ws_def)
qed

text \<open>
  C6, as the code has it. For a line of at most three numeric fields the function
  returns a line, made of one value for each field, in the order of the fields: the
  first two values times the factor and the third times one, each rounded to five
  decimals (so each is within half a unit of the fifth decimal of the product, and a
  third value with at most five decimals keeps its value). Each value is rendered by
  \<^verbatim>\<open>str\<close> and padded on the left to ten characters, a longer rendering being kept
  whole, and the line ends with a line end. When every rendering is shorter than ten
  characters (and is a text without spaces, not empty), the fields of the result are
  these renderings, as many as the line had fields and in their order; when
  \<^verbatim>\<open>float\<close> reads each of them back as well, parsing the result gives the rounded
  values.
\<close>

theorem stretch_boxsize_scales:
  assumes "map pf (split_ws boxsize_line) = map Some vs" and "length vs \<le> 3"
  shows "\<exists>ds. stretch_boxsize pf ps boxsize_line s
                 = Inr (concat (map (\<lambda>d. rjust 10 (ps d)) ds) @ [LF])
           \<and> ds = map2 (\<lambda>v c. py_round (v * c) 5) vs [s, s, 1]
           \<and> length ds = length vs
           \<and> (\<forall>i < length ds. \<bar>ds ! i - vs ! i * [s, s, 1] ! i\<bar> \<le> 1 / (2 * 10 ^ 5)
                                \<and> ds ! i * 10 ^ 5 \<in> \<int>)
           \<and> (\<forall>i < length ds. 2 \<le> i \<and> vs ! i * 10 ^ 5 \<in> \<int> \<longrightarrow> ds ! i = vs ! i)
           \<and> (\<forall>d \<in> set ds. length (rjust 10 (ps d)) = max 10 (length (ps d)))
           \<and> ((\<forall>d \<in> set ds. ps d \<noteq> [] \<and> length (ps d) < 10
                              \<and> (\<forall>c \<in> set (ps d). \<not> is_space c))
                \<longrightarrow> split_ws (concat (map (\<lambda>d. rjust 10 (ps d)) ds) @ [LF]) = map ps ds
                    \<and> length (split_ws (concat (map (\<lambda>d. rjust 10 (ps d)) ds) @ [LF]))
                        = length (split_ws boxsize_line))
           \<and> ((\<forall>d \<in> set ds. ps d \<noteq> [] \<and> length (ps d) < 10
                              \<and> (\<forall>c \<in> set (ps d). \<not> is_space c) \<and> pf (ps d) = Some d)
                \<longrightarrow> map pf (split_ws (concat (map (\<lambda>d. rjust 10 (ps d)) ds) @ [LF]))
                      = map Some ds)"
proof -
  let ?scale = "[s, s, 1]"
  define ds where "ds = map2 (\<lambda>v c. py_round (v * c) 5) vs ?scale"
  have len_fields: "length (split_ws boxsize_line) = length vs"
    using assms(1) by (metis length_map)
  with assms(2) have "0 + length (split_ws boxsize_line) \<le> length ?scale"
    by simp
  from scaled_dimensions_ok [OF assms(1) this]
  have res: "stretch_boxsize pf ps boxsize_line s
               = Inr (concat (map (\<lambda>d. rjust 10 (ps d)) ds) @ [LF])"
    by (simp add: stretch_boxsize_def ds_def)
  have len: "length ds = length vs"
    using assms(2) by (simp add: ds_def)
  have nth: "ds ! i = py_round (vs ! i * ?scale ! i) 5" if "i < length ds" for i
    using that assms(2) by (simp add: ds_def)
  have close: "\<bar>ds ! i - vs ! i * ?scale ! i\<bar> \<le> 1 / (2 * 10 ^ 5) \<and> ds ! i * 10 ^ 5 \<in> \<int>"
    if "i < length ds" for i
    using nth [OF that] py_round_close [of "vs ! i * ?scale ! i" 5]
      py_round_decimals [of "vs ! i * ?scale ! i" 5]
    by simp
  have third: "ds ! i = vs ! i" if "i < length ds" and "2 \<le> i" and "vs ! i * 10 ^ 5 \<in> \<int>" for i
  proof -
    from that(1,2) len assms(2) have "i = 2" by simp
    with nth [OF that(1)] that(3) show ?thesis
      by (simp add: py_round_exact)
  qed
  have width: "length (rjust 10 (ps d)) = max 10 (length (ps d))" for d
    by (simp add: rjust_def)
  have fields: "split_ws (concat (map (\<lambda>d. rjust 10 (ps d)) ds) @ [LF]) = map ps ds
                \<and> length (split_ws (concat (map (\<lambda>d. rjust 10 (ps d)) ds) @ [LF]))
                    = length (split_ws boxsize_line)"
    if ok: "\<forall>d \<in> set ds. ps d \<noteq> [] \<and> length (ps d) < 10 \<and> (\<forall>c \<in> set (ps d). \<not> is_space c)"
  proof -
    from ok have "\<forall>t \<in> set (map ps ds). t \<noteq> [] \<and> length t < 10 \<and> (\<forall>c \<in> set t. \<not> is_space c)"
      by simp
    from split_ws_fields [OF this]
    have "split_ws (concat (map (\<lambda>d. rjust 10 (ps d)) ds) @ [LF]) = map ps ds"
      by (simp add: comp_def)
    with len len_fields show ?thesis by simp
  qed
  have parse: "map pf (split_ws (concat (map (\<lambda>d. rjust 10 (ps d)) ds) @ [LF])) = map Some ds"
    if ok: "\<forall>d \<in> set ds. ps d \<noteq> [] \<and> length (ps d) < 10
              \<and> (\<forall>c \<in> set (ps d). \<not> is_space c) \<and> pf (ps d) = Some d"
  proof -
    from ok have "\<forall>d \<in> set ds. ps d \<noteq> [] \<and> length (ps d) < 10
                    \<and> (\<forall>c \<in> set (ps d). \<not> is_space c)"
      by blast
    from fields [OF this]
    have "split_ws (concat (map (\<lambda>d. rjust 10 (ps d)) ds) @ [LF]) = map ps ds" ..
    with ok show ?thesis by simp
  qed
  show ?thesis
  proof (intro exI [of _ ds] conjI)
    show "stretch_boxsize pf ps boxsize_line s
            = Inr (concat (map (\<lambda>d. rjust 10 (ps d)) ds) @ [LF])"
      by (rule res)
    show "ds = map2 (\<lambda>v c. py_round (v * c) 5) vs [s, s, 1]"
      by (rule ds_def)
    show "length ds = length vs"
      by (rule len)
    show "\<forall>i < length ds. \<bar>ds ! i - vs ! i * [s, s, 1] ! i\<bar> \<le> 1 / (2 * 10 ^ 5)
                             \<and> ds ! i * 10 ^ 5 \<in> \<int>"
      using close by blast
    show "\<forall>i < length ds. 2 \<le> i \<and> vs ! i * 10 ^ 5 \<in> \<int> \<longrightarrow> ds ! i = vs ! i"
      using third by blast
    show "\<forall>d \<in> set ds. length (rjust 10 (ps d)) = max 10 (length (ps d))"
      using width by blast
    show "(\<forall>d \<in> set ds. ps d \<noteq> [] \<and> length (ps d) < 10 \<and> (\<forall>c \<in> set (ps d). \<not> is_space c))
            \<longrightarrow> split_ws (concat (map (\<lambda>d. rjust 10 (ps d)) ds) @ [LF]) = map ps ds
                \<and> length (split_ws (concat (map (\<lambda>d. rjust 10 (ps d)) ds) @ [LF]))
                    = length (split_ws boxsize_line)"
      using fields by blast
    show "(\<forall>d \<in> set ds. ps d \<noteq> [] \<and> length (ps d) < 10
               \<and> (\<forall>c \<in> set (ps d). \<not> is_space c) \<and> pf (ps d) = Some d)
            \<longrightarrow> map pf (split_ws (concat (map (\<lambda>d. rjust 10 (ps d)) ds) @ [LF])) = map Some ds"
      using parse by blast
  qed
qed

theorem stretch_boxsize_scales_witness:
  "map float_examples (split_ws ''   7.50000   7.50000  10.00000'') = map Some [7.5, 7.5, 10]
   \<and> stretch_boxsize float_examples str_examples ''   7.50000   7.50000  10.00000'' 1.15
       = Inr (''     8.625     8.625      10.0'' @ [LF])
   \<and> split_ws (''     8.625     8.625      10.0'' @ [LF]) = [''8.625'', ''8.625'', ''10.0'']
   \<and> map float_examples (split_ws (''     8.625     8.625      10.0'' @ [LF]))
       = map Some [8.625, 8.625, 10]"
proof -
  have fields: "map float_examples (split_ws ''   7.50000   7.50000  10.00000'')
                  = map Some [7.5, 7.5, 10]"
    by (simp add: split_ws_def is_space_def float_examples_def)
  have three: "length [7.5, 7.5, 10 :: real] \<le> 3"
    by simp
  from stretch_boxsize_scales [OF fields three, of str_examples "1.15"]
  obtain ds where
    "stretch_boxsize float_examples str_examples ''   7.50000   7.50000  10.00000'' 1.15
       = Inr (concat (map (\<lambda>d. rjust 10 (str_examples d)) ds) @ [LF])"
    and "ds = map2 (\<lambda>v c. py_round (v * c) 5) [7.5, 7.5, 10] [1.15, 1.15, 1]"
    by blast
  then have line: "stretch_boxsize float_examples str_examples
                     ''   7.50000   7.50000  10.00000'' 1.15
                 = Inr (''     8.625     8.625      10.0'' @ [LF])"
    by (simp add: py_round_def round_half_even_def str_examples_def rjust_def
          eval_nat_numeral)
  have split: "split_ws (''     8.625     8.625      10.0'' @ [LF]) = [''8.625'', ''8.625'', ''10.0'']"
    by (simp add: split_ws_def is_space_def LF_def)
  have parsed: "map float_examples (split_ws (''     8.625     8.625      10.0'' @ [LF]))
                  = map Some [8.625, 8.625, 10]"
    by (simp add: split_ws_def is_space_def float_examples_def LF_def)
  from fields line split parsed show ?thesis by blast
qed

text \<open>
  The claim C6 as it is stated fails in three places. A numeric line of four fields
  gives no line but an error. The third field is rounded as well: \<open>0.123456\<close>
  comes back as \<open>0.12346\<close>. And a rendering of ten characters gets no padding, so
  that two fields run together and the result has two fields where the input had
  three.
\<close>

theorem stretch_boxsize_counterexample:
  "stretch_boxsize float_examples str_examples ''1 1 1 1'' 1 = Inl IndexError
   \<and> stretch_boxsize float_examples str_examples ''1 1 0.123456'' 1
       = Inr (''       1.0       1.0   0.12346'' @ [LF])
   \<and> float_examples ''0.123456'' \<noteq> float_examples ''0.12346''
   \<and> stretch_boxsize float_examples str_examples ''1234.56789 1234.56789 10'' 1
       = Inr (''1234.567891234.56789      10.0'' @ [LF])
   \<and> split_ws (''1234.567891234.56789      10.0'' @ [LF]) = [''1234.567891234.56789'', ''10.0'']"
  by (simp add: stretch_boxsize_def split_ws_def is_space_def float_examples_def
        str_examples_def py_round_def round_half_even_def rjust_def LF_def
        eval_nat_numeral)

text \<open>
  C10. A line of more than three fields never gives a scaled line: the call raises.
  When the first four fields are numbers, as in a box line, the error is the
  \<^verbatim>\<open>IndexError\<close> of \<^verbatim>\<open>scale[3]\<close>, the scale list having three entries; a field
  that is no number raises the \<^verbatim>\<open>ValueError\<close> of \<^verbatim>\<open>float\<close> before that.
\<close>

theorem stretch_boxsize_more_than_three_fields:
  assumes "3 < length (split_ws boxsize_line)"
  shows "(\<exists>e. stretch_boxsize pf ps boxsize_line s = Inl e)
         \<and> ((\<forall>x \<in> set (take 4 (split_ws boxsize_line)). pf x \<noteq> None)
              \<longrightarrow> stretch_boxsize pf ps boxsize_line s = Inl IndexError)"
proof -
  let ?scale = "[s, s, 1]"
  from assms have long: "length ?scale < 0 + length (split_ws boxsize_line)"
    by simp
  have zero: "0 \<le> length ?scale" by simp
  from scaled_dimensions_too_long [OF zero long]
  obtain e where "scaled_dimensions pf ?scale 0 (split_ws boxsize_line) = Inl e" ..
  then have raises: "\<exists>e. stretch_boxsize pf ps boxsize_line s = Inl e"
    by (simp add: stretch_boxsize_def)
  have index: "stretch_boxsize pf ps boxsize_line s = Inl IndexError"
    if "\<forall>x \<in> set (take 4 (split_ws boxsize_line)). pf x \<noteq> None"
  proof -
    from that have "\<forall>x \<in> set (take (Suc (length ?scale - 0)) (split_ws boxsize_line)). pf x \<noteq> None"
      by (simp add: eval_nat_numeral)
    from scaled_dimensions_index_error [OF zero long this] show ?thesis
      by (simp add: stretch_boxsize_def)
  qed
  from raises index show ?thesis by blast
qed

theorem stretch_boxsize_more_than_three_fields_witness:
  "3 < length (split_ws ''10 10 10 0 0 0 0 0 0'')
   \<and> stretch_boxsize float_examples str_examples ''10 10 10 0 0 0 0 0 0'' 1.15 = Inl IndexError"
  using stretch_boxsize_more_than_three_fields
    [of "''10 10 10 0 0 0 0 0 0''" float_examples str_examples "1.15"]
  by (simp add: split_ws_def is_space_def float_examples_def)

section \<open>Position restraints for a group\<close>

lemma py_index_nth: "py_index x xs = Some i \<Longrightarrow> i < length xs \<and> xs ! i = x"
proof (induction xs arbitrary: i)
  case Nil
  then show ?case by simp
next
  case (Cons y ys)
  then show ?case
    by (cases "x = y") auto
qed

lemma exclude_string_head:
  "exclude_res \<noteq> [] \<Longrightarrow> \<exists>rest. exclude_string exclude_res = ''r '' @ rest"
proof (cases exclude_res)
  case Nil
  assume "exclude_res \<noteq> []"
  with Nil show ?thesis by simp
next
  case (Cons r rs)
  then show ?thesis
    by (cases rs) (simp_all add: exclude_string_def)
qed

text \<open>
  C8. Let the named group be among the default groups of the file, at the position
  \<open>group_index\<close>. For a non-empty list of residues the function issues, after the
  listing of the groups: one \<^verbatim>\<open>make_ndx\<close> whose first line is the residue selectors
  \<open>r <res>\<close> joined by \<open>|\<close> and whose second line is the named group without the
  group of the first line (\<open>!len & group_index\<close>, the first line's group having the
  handle \<open>len\<close>, the number of default groups); one \<^verbatim>\<open>genrestr\<close> on that index
  with the handle \<open>len + 1\<close>, which is the handle of the group the second line
  made; and the removal of the index file. For the empty list it issues one
  \<^verbatim>\<open>genrestr\<close> with the handle of the named group and no index file.
\<close>

theorem generate_posre_commands:
  assumes "py_index group_name (default_groups file_to_process) = Some group_index"
  shows "default_groups file_to_process ! group_index = group_name
         \<and> (exclude_res \<noteq> [] \<longrightarrow>
              (let current = default_groups file_to_process;
                   difference = ''!'' @ str_nat (length current) @ '' & '' @ str_nat group_index;
                   index_input = [exclude_string exclude_res, difference, ''q''];
                   temp = join folder_path ''temp.ndx''
               in generate_posre default_groups file_to_process folder_path group_name exclude_res
                    = Inr (snd (parse_indexkey_to_list default_groups file_to_process) @
                           [Make_ndx file_to_process temp index_input,
                            Genrestr file_to_process (join folder_path ''posre.itp'') (Some temp)
                              [str_nat (length current + 1)],
                            Remove temp])
                  \<and> exclude_string exclude_res
                      = py_join '' | '' (map (\<lambda>res. ''r '' @ str_int res) exclude_res)
                  \<and> make_ndx_groups current index_input
                      = current @ [exclude_string exclude_res, difference]
                  \<and> make_ndx_groups current index_input ! length current
                      = exclude_string exclude_res
                  \<and> make_ndx_groups current index_input ! (length current + 1) = difference))
         \<and> (exclude_res = [] \<longrightarrow>
              generate_posre default_groups file_to_process folder_path group_name exclude_res
                = Inr (snd (parse_indexkey_to_list default_groups file_to_process) @
                       [Genrestr file_to_process (join folder_path ''posre.itp'') None
                          [str_nat group_index]]))"
proof -
  let ?current = "default_groups file_to_process"
  let ?difference = "''!'' @ str_nat (length ?current) @ '' & '' @ str_nat group_index"
  from py_index_nth [OF assms] have named: "?current ! group_index = group_name"
    by simp
  have groups: "make_ndx_groups ?current [exclude_string exclude_res, ?difference, ''q'']
                  = ?current @ [exclude_string exclude_res, ?difference]"
    if "exclude_res \<noteq> []"
  proof -
    from exclude_string_head [OF that] obtain rest
      where "exclude_string exclude_res = ''r '' @ rest" ..
    then show ?thesis by (simp add: make_ndx_groups_def)
  qed
  have handles: "(?current @ [a, b]) ! length ?current = a
                 \<and> (?current @ [a, b]) ! (length ?current + 1) = b" for a b :: string
    by (simp add: nth_append)
  show ?thesis
    using assms named groups handles
    by (simp add: generate_posre_def parse_indexkey_to_list_def exclude_string_def Let_def)
qed

theorem generate_posre_witness:
  "py_index ''Protein'' [''System'', ''Protein'', ''SOL''] = Some 1
   \<and> generate_posre (\<lambda>f. [''System'', ''Protein'', ''SOL'']) ''a.gro'' ''work'' ''Protein'' [3, 7]
       = Inr [Make_ndx ''a.gro'' ''temp.ndx'' ['''', ''q''], Remove ''temp.ndx'',
              Make_ndx ''a.gro'' ''work/temp.ndx'' [''r 3 | r 7'', ''!3 & 1'', ''q''],
              Genrestr ''a.gro'' ''work/posre.itp'' (Some ''work/temp.ndx'') [''4''],
              Remove ''work/temp.ndx'']
   \<and> generate_posre (\<lambda>f. [''System'', ''Protein'', ''SOL'']) ''a.gro'' ''work'' ''Protein'' []
       = Inr [Make_ndx ''a.gro'' ''temp.ndx'' ['''', ''q''], Remove ''temp.ndx'',
              Genrestr ''a.gro'' ''work/posre.itp'' None [''1'']]"
proof -
  have found: "py_index ''Protein'' ((\<lambda>f. [''System'', ''Protein'', ''SOL'']) ''a.gro'') = Some 1"
    by simp
  from generate_posre_commands
      [where default_groups = "\<lambda>f. [''System'', ''Protein'', ''SOL'']" and file_to_process = "''a.gro''"
         and exclude_res = "[3, 7]" and folder_path = "''work''", OF found]
    generate_posre_commands
      [where default_groups = "\<lambda>f. [''System'', ''Protein'', ''SOL'']" and file_to_process = "''a.gro''"
         and exclude_res = "[]" and folder_path = "''work''", OF found]
  show ?thesis
    by (simp add: Let_def parse_indexkey_to_list_def exclude_string_def str_int_def
          str_nat.simps digit_char_def join_def dirname_def)
qed

section \<open>The embedding controller: files and events\<close>

lemma topol_artifact: "join folder_path ''topol.top'' \<in> artifact_paths folder_path"
  by (simp add: artifact_paths_def)

lemma gro_artifact: "join folder_path (''embed_'' @ str_nat n @ ''.gro'') \<in> artifact_paths folder_path"
  by (auto simp: artifact_paths_def)

lemma log_artifact: "join folder_path (''embed_'' @ str_nat n @ ''.log'') \<in> artifact_paths folder_path"
  by (auto simp: artifact_paths_def)

lemma raw_artifact: "join folder_path (raw_name n) \<in> artifact_paths folder_path"
  by (auto simp: artifact_paths_def)

lemma stray_artifact: "folder_path @ raw_name n \<in> artifact_paths folder_path"
  by (auto simp: artifact_paths_def)

lemma embed0_artifact: "join folder_path ''embed_0.gro'' \<in> artifact_paths folder_path"
  using gro_artifact [of folder_path 0] by (simp add: str_nat.simps digit_char_def)

lemma write_universe_frame:
  "path \<in> A \<Longrightarrow> \<forall>p. p \<notin> A \<longrightarrow> fs (write_universe path u st) p = fs st p"
  by (auto simp: write_universe_def)

lemma change_boxsize_frame:
  "change_boxsize pf path line st = Inr st' \<Longrightarrow> path \<in> A \<Longrightarrow>
   (\<forall>p. p \<notin> A \<longrightarrow> fs st' p = fs st p) \<and> events st' = events st"
  by (auto simp: change_boxsize_def write_universe_def split: sum.splits if_splits)

lemma copyfile_frame:
  "copyfile src dst st = Inr st' \<Longrightarrow> dst \<in> A \<Longrightarrow>
   (\<forall>p. p \<notin> A \<longrightarrow> fs st' p = fs st p) \<and> events st' = events st"
  by (auto simp: copyfile_def split: option.splits)

lemma copyfile_result:
  "copyfile src dst st = Inr st' \<Longrightarrow>
   fs st' dst = fs st src \<and> fs st src \<noteq> None \<and> events st' = events st"
  by (auto simp: copyfile_def split: option.splits)

lemma minimize_frame:
  "minimize env file_to_process folder_path name st = (rc, st') \<Longrightarrow>
   join folder_path (name @ ''.log'') \<in> A \<Longrightarrow> join folder_path (name @ ''.gro'') \<in> A \<Longrightarrow>
   (\<forall>p. p \<notin> A \<longrightarrow> fs st' p = fs st p) \<and> events st' = events st"
  by (auto simp: minimize_def Let_def split: prod.splits option.splits)

lemma retry_loop_effect:
  "retry_loop env fuel folder_path n boxsize u st = (r, st') \<Longrightarrow>
   (\<forall>p. p \<notin> artifact_paths folder_path \<longrightarrow> fs st' p = fs st p)
   \<and> (\<exists>new. events st' = events st @ new \<and> fatal_is_last r new \<and> success_is_last n r new)"
proof (induction fuel arbitrary: u st)
  case 0
  then show ?case
    by (simp add: fatal_is_last_def success_is_last_def)
next
  case (Suc fuel)
  let ?topol = "join folder_path ''topol.top''"
  show ?case
  proof (cases "copyfile (join folder_path ''template.top'') ?topol st")
    case (Inl e)
    with Suc.prems show ?thesis
      by (auto simp: fatal_is_last_def success_is_last_def)
  next
    case (Inr st1)
    from copyfile_frame [OF Inr topol_artifact]
    have f1: "\<forall>p. p \<notin> artifact_paths folder_path \<longrightarrow> fs st1 p = fs st p"
      and e1: "events st1 = events st"
      by auto
    obtain rc st2 where
      m: "minimize env (join folder_path (raw_name n)) folder_path (''embed_'' @ str_nat n) st1
            = (rc, st2)"
      by (cases "minimize env (join folder_path (raw_name n)) folder_path
                   (''embed_'' @ str_nat n) st1")
    from minimize_frame [OF m] log_artifact [of folder_path n] gro_artifact [of folder_path n]
    have f2: "\<forall>p. p \<notin> artifact_paths folder_path \<longrightarrow> fs st2 p = fs st1 p"
      and e2: "events st2 = events st1"
      by auto
    let ?st3 = "st2\<lparr>events := events st2 @ [Minimized n rc]\<rparr>"
    show ?thesis
    proof (cases rc)
      case (Inl e)
      with Suc.prems Inr m have "r = Raised e" and "st' = ?st3"
        by simp_all
      with f1 f2 e1 e2 Inl show ?thesis
        by (simp add: fatal_is_last_def success_is_last_def)
    next
      case rc: (Inr code)
      show ?thesis
      proof (cases code)
        case None
        with Suc.prems Inr m rc have "r = Done" and "st' = ?st3"
          by simp_all
        with f1 f2 e1 e2 rc None show ?thesis
          by (simp add: fatal_is_last_def success_is_last_def)
      next
        case (Some atom_id)
        show ?thesis
        proof (cases "select_bynum atom_id u")
          case Nil
          with Suc.prems Inr m rc Some have "r = Raised IndexError" and "st' = ?st3"
            by simp_all
          with f1 f2 e1 e2 rc Some show ?thesis
            by (simp add: fatal_is_last_def success_is_last_def)
        next
          case (Cons i sel)
          let ?moved = "perturb i u"
          let ?st4 = "write_universe (folder_path @ raw_name n) ?moved
                        (?st3\<lparr>events := events ?st3 @ [Perturbed n atom_id]\<rparr>)"
          have "\<forall>p. p \<notin> artifact_paths folder_path \<longrightarrow>
                  fs ?st4 p = fs (?st3\<lparr>events := events ?st3 @ [Perturbed n atom_id]\<rparr>) p"
            by (rule write_universe_frame [OF stray_artifact])
          with f1 f2 have f4: "\<forall>p. p \<notin> artifact_paths folder_path \<longrightarrow> fs ?st4 p = fs st p"
            by simp
          have e4: "events ?st4 = events st @ [Minimized n rc, Perturbed n atom_id]"
            using e1 e2 by (simp add: write_universe_def)
          show ?thesis
          proof (cases "change_boxsize (pfloat env) (join folder_path (raw_name n)) boxsize ?st4")
            case (Inl e)
            with Suc.prems Inr m rc Some Cons have "r = Raised e" and "st' = ?st4"
              by (simp_all add: Let_def)
            with f4 e4 rc Some show ?thesis
              by (simp add: fatal_is_last_def success_is_last_def)
          next
            case st5: (Inr st5)
            from change_boxsize_frame [OF st5 raw_artifact]
            have f5: "\<forall>p. p \<notin> artifact_paths folder_path \<longrightarrow> fs st5 p = fs ?st4 p"
              and e5: "events st5 = events ?st4"
              by auto
            from Suc.prems Inr m rc Some Cons st5
            have "retry_loop env fuel folder_path n boxsize ?moved st5 = (r, st')"
              by (simp add: Let_def)
            from Suc.IH [OF this] obtain new where
              f: "\<forall>p. p \<notin> artifact_paths folder_path \<longrightarrow> fs st' p = fs st5 p"
              and new: "events st' = events st5 @ new" "fatal_is_last r new"
                "success_is_last n r new"
              by blast
            let ?all = "[Minimized n rc, Perturbed n atom_id] @ new"
            have "events st' = events st @ ?all"
              using new(1) e5 e4 by simp
            moreover have "fatal_is_last r ?all"
              using new(2) rc by (auto simp: fatal_is_last_def)
            moreover have "success_is_last n r ?all"
              using new(3) by (auto simp: success_is_last_def)
            moreover have "\<forall>p. p \<notin> artifact_paths folder_path \<longrightarrow> fs st' p = fs st p"
              using f f5 f4 by simp
            ultimately show ?thesis by blast
          qed
        qed
      qed
    qed
  qed
qed

lemma fatal_is_last_append:
  assumes "\<forall>n e. Minimized n (Inl e) \<notin> set old" and "fatal_is_last r new"
  shows "fatal_is_last r (old @ new)"
  unfolding fatal_is_last_def
proof (intro allI impI)
  fix n e
  assume "Minimized n (Inl e) \<in> set (old @ new)"
  with assms(1) have mem: "Minimized n (Inl e) \<in> set new"
    by simp
  then have "new \<noteq> []"
    by auto
  with mem assms(2) show "r = Raised e \<and> last (old @ new) = Minimized n (Inl e)"
    by (simp add: fatal_is_last_def)
qed

lemma fatal_is_last_Done: "fatal_is_last Done evs \<Longrightarrow> \<forall>n e. Minimized n (Inl e) \<notin> set evs"
  by (auto simp: fatal_is_last_def)

lemma compress_steps_effect:
  "compress_steps env fuel folder_path lipid_selection ratio boxsize ns st = (r, st') \<Longrightarrow>
   (\<forall>p. p \<notin> artifact_paths folder_path \<longrightarrow> fs st' p = fs st p)
   \<and> (\<exists>new. events st' = events st @ new \<and> fatal_is_last r new
          \<and> (ns \<noteq> [] \<longrightarrow> success_is_last (last ns) r new))"
proof (induction ns arbitrary: boxsize st)
  case Nil
  then show ?case
    by (auto simp: fatal_is_last_def)
next
  case (Cons n ns)
  let ?prev = "join folder_path (''embed_'' @ str_nat (n - 1) @ ''.gro'')"
  let ?raw = "join folder_path (raw_name n)"
  show ?case
  proof (cases "load_universe st ?prev")
    case (Inl e)
    with Cons.prems show ?thesis
      by (auto simp: fatal_is_last_def success_is_last_def)
  next
    case (Inr combined_universe)
    show ?thesis
    proof (cases "stretch_groups (select_atoms env lipid_selection combined_universe)
         (select_atoms env (''not ( '' @ lipid_selection @ '' )'') combined_universe) ratio
         combined_universe")
      case (Inl e)
      with Cons.prems Inr show ?thesis
        by (auto simp: fatal_is_last_def success_is_last_def Let_def)
    next
    case stretched: (Inr stretched)
    show ?thesis
    proof (cases "stretch_boxsize (pfloat env) (pstr env) boxsize ratio")
      case (Inl e)
      with Cons.prems Inr stretched show ?thesis
        by (auto simp: fatal_is_last_def success_is_last_def Let_def)
    next
      case box: (Inr boxsize')
      let ?st1 = "write_universe ?raw stretched st"
      have f1: "\<forall>p. p \<notin> artifact_paths folder_path \<longrightarrow> fs ?st1 p = fs st p"
        by (rule write_universe_frame [OF raw_artifact])
      have e1: "events ?st1 = events st"
        by (simp add: write_universe_def)
      show ?thesis
      proof (cases "change_boxsize (pfloat env) ?raw boxsize' ?st1")
        case (Inl e)
        with Cons.prems Inr stretched box have "r = Raised e" and "st' = ?st1"
          by (simp_all add: Let_def)
        with f1 e1 show ?thesis
          by (simp add: fatal_is_last_def success_is_last_def)
      next
        case st2: (Inr st2)
        from change_boxsize_frame [OF st2 raw_artifact]
        have f2: "\<forall>p. p \<notin> artifact_paths folder_path \<longrightarrow> fs st2 p = fs ?st1 p"
          and e2: "events st2 = events ?st1"
          by auto
        obtain r3 st3 where
          loop: "retry_loop env fuel folder_path n boxsize' stretched st2 = (r3, st3)"
          by (cases "retry_loop env fuel folder_path n boxsize' stretched st2")
        from retry_loop_effect [OF loop] obtain new1 where
          f3: "\<forall>p. p \<notin> artifact_paths folder_path \<longrightarrow> fs st3 p = fs st2 p"
          and new1: "events st3 = events st2 @ new1" "fatal_is_last r3 new1"
            "success_is_last n r3 new1"
          by blast
        show ?thesis
        proof (cases "r3 = Done")
          case False
          with Cons.prems Inr stretched box st2 loop have "r = r3" and "st' = st3"
            by (simp_all add: Let_def split: result.splits)
          with f1 f2 f3 e1 e2 new1 False show ?thesis
            by (auto simp: success_is_last_def)
        next
          case True
          with Cons.prems Inr stretched box st2 loop
          have "compress_steps env fuel folder_path lipid_selection ratio boxsize' ns st3
                  = (r, st')"
            by (simp add: Let_def)
          from Cons.IH [OF this] obtain new2 where
            f: "\<forall>p. p \<notin> artifact_paths folder_path \<longrightarrow> fs st' p = fs st3 p"
            and new2: "events st' = events st3 @ new2" "fatal_is_last r new2"
              "ns \<noteq> [] \<longrightarrow> success_is_last (last ns) r new2"
            by blast
          from True new1(2) have clean: "\<forall>n e. Minimized n (Inl e) \<notin> set new1"
            by (simp add: fatal_is_last_Done)
          have "events st' = events st @ (new1 @ new2)"
            using new2(1) new1(1) e2 e1 by simp
          moreover have "fatal_is_last r (new1 @ new2)"
            by (rule fatal_is_last_append [OF clean new2(2)])
          moreover have "success_is_last (last (n # ns)) r (new1 @ new2)"
          proof (cases "ns = []")
            case empty: True
            with \<open>compress_steps env fuel folder_path lipid_selection ratio boxsize' ns st3
                  = (r, st')\<close> new2(1) have "new2 = []"
              by simp
            with empty True new1(3) show ?thesis
              by (simp add: success_is_last_def)
          next
            case False
            with new2(3) show ?thesis
              by (auto simp: success_is_last_def)
          qed
          moreover have "\<forall>p. p \<notin> artifact_paths folder_path \<longrightarrow> fs st' p = fs st p"
            using f f3 f2 f1 by simp
          ultimately show ?thesis by blast
        qed
      qed
    qed
    qed
  qed
qed

lemma last_steps: "1 \<le> steps \<Longrightarrow> [1..<Suc steps] \<noteq> [] \<and> last [1..<Suc steps] = steps"
  by (cases steps) simp_all

text \<open>
  C2. Let the protein file be none of the paths the run works on in its folder.
  Whenever the controller does not return normally (a step or a retry raised, or the
  retry loop is still running), the protein file is what it was before the call. When
  it returns, there was at least one step, the last thing that happened before the
  final copy is the successful minimization of the last step, and the protein file
  holds the structure of that step. A minimization that raises is the last event of
  the run, and its error is the error of the controller.
\<close>

theorem embed_in_lipids_commits_at_end:
  assumes notin: "protein_path \<notin> artifact_paths folder_path"
    and run: "embed_in_lipids env fuel protein_path lipid_path folder_path lipid_selection
                boxsize_line starting_scale end_scale steps files = (r, st)"
  shows "(r \<noteq> Done \<longrightarrow> fs st protein_path = files protein_path)
         \<and> (r = Done \<longrightarrow>
               1 \<le> steps \<and> events st \<noteq> [] \<and> last (events st) = Minimized steps (Inr None)
               \<and> fs st protein_path
                   = fs st (join folder_path (''embed_'' @ str_nat steps @ ''.gro''))
               \<and> fs st protein_path \<noteq> None)
         \<and> (\<forall>n e. Minimized n (Inl e) \<in> set (events st)
               \<longrightarrow> r = Raised e \<and> last (events st) = Minimized n (Inl e))"
proof -
  let ?A = "artifact_paths folder_path"
  let ?st0 = "\<lparr>fs = files, calls = 0, events = []\<rparr>"
  let ?goal = "\<lambda>r st. (r \<noteq> Done \<longrightarrow> fs st protein_path = files protein_path)
         \<and> (r = Done \<longrightarrow>
               1 \<le> steps \<and> events st \<noteq> [] \<and> last (events st) = Minimized steps (Inr None)
               \<and> fs st protein_path
                   = fs st (join folder_path (''embed_'' @ str_nat steps @ ''.gro''))
               \<and> fs st protein_path \<noteq> None)
         \<and> (\<forall>n e. Minimized n (Inl e) \<in> set (events st)
               \<longrightarrow> r = Raised e \<and> last (events st) = Minimized n (Inl e))"
  have early: "?goal (Raised e) s" if "fs s protein_path = files protein_path" and "events s = []"
    for e s
    using that by simp
  show ?thesis
  proof (cases "load_universe ?st0 protein_path")
    case (Inl e)
    with run have "r = Raised e" and "st = ?st0"
      by (simp_all add: embed_in_lipids_def)
    with early [of ?st0 e] show ?thesis by simp
  next
    case protein: (Inr protein_universe)
    show ?thesis
    proof (cases "load_universe ?st0 lipid_path")
      case (Inl e)
      with run protein have "r = Raised e" and "st = ?st0"
        by (simp_all add: embed_in_lipids_def)
      with early [of ?st0 e] show ?thesis by simp
    next
      case lipid: (Inr lipid_universe)
      show ?thesis
      proof (cases "stretch_universes lipid_universe protein_universe starting_scale")
        case (Inl e)
        with run protein lipid have "r = Raised e" and "st = ?st0"
          by (simp_all add: embed_in_lipids_def Let_def)
        with early [of ?st0 e] show ?thesis by simp
      next
      case stretched: (Inr stretched)
      show ?thesis
      proof (cases "stretch_boxsize (pfloat env) (pstr env) boxsize_line starting_scale")
        case (Inl e)
        with run protein lipid stretched have "r = Raised e" and "st = ?st0"
          by (simp_all add: embed_in_lipids_def Let_def)
        with early [of ?st0 e] show ?thesis by simp
      next
        case box: (Inr boxsize)
        show ?thesis
        proof (cases "merge protein_universe stretched")
          case (Inl e)
          with run protein lipid stretched box have "r = Raised e" and "st = ?st0"
            by (simp_all add: embed_in_lipids_def Let_def)
          with early [of ?st0 e] show ?thesis by simp
        next
          case merged: (Inr combined_universe)
          let ?embed0 = "join folder_path ''embed_0.gro''"
          let ?st1 = "write_universe ?embed0 combined_universe ?st0"
          have "\<forall>p. p \<notin> ?A \<longrightarrow> fs ?st1 p = fs ?st0 p"
            by (rule write_universe_frame [OF embed0_artifact])
          with notin have f1: "fs ?st1 protein_path = files protein_path"
            by simp
          have e1: "events ?st1 = []"
            by (simp add: write_universe_def)
          show ?thesis
          proof (cases "change_boxsize (pfloat env) ?embed0 boxsize ?st1")
            case (Inl e)
            with run protein lipid stretched box merged have "r = Raised e" and "st = ?st1"
              by (simp_all add: embed_in_lipids_def Let_def)
            with early [OF f1 e1, of e] show ?thesis by simp
          next
            case st2: (Inr st2)
            from change_boxsize_frame [OF st2 embed0_artifact] notin f1 e1
            have f2: "fs st2 protein_path = files protein_path" and e2: "events st2 = []"
              by simp_all
            show ?thesis
            proof (cases "stepwise_compression starting_scale end_scale steps")
              case (Inl e)
              with run protein lipid stretched box merged st2 have "r = Raised e" and "st = st2"
                by (simp_all add: embed_in_lipids_def Let_def)
              with early [OF f2 e2, of e] show ?thesis by simp
            next
              case ratio: (Inr ratio)
              then have steps: "1 \<le> steps"
                by (cases steps) (simp_all add: stepwise_compression_def split: if_splits)
              obtain r3 st3 where
                loop: "compress_steps env fuel folder_path lipid_selection ratio boxsize
                         [1..<Suc steps] st2 = (r3, st3)"
                by (cases "compress_steps env fuel folder_path lipid_selection ratio boxsize
                         [1..<Suc steps] st2")
              from compress_steps_effect [OF loop] last_steps [OF steps] e2 obtain new where
                f3: "\<forall>p. p \<notin> ?A \<longrightarrow> fs st3 p = fs st2 p"
                and e3: "events st3 = new" and fatal: "fatal_is_last r3 new"
                and success: "success_is_last steps r3 new"
                by auto
              from f3 f2 notin have f3': "fs st3 protein_path = files protein_path"
                by simp
              let ?final = "join folder_path (''embed_'' @ str_nat steps @ ''.gro'')"
              show ?thesis
              proof (cases "r3 = Done")
                case False
                with run protein lipid stretched box merged st2 ratio loop have "r = r3" and "st = st3"
                  by (simp_all add: embed_in_lipids_def Let_def split: result.splits)
                with False f3' e3 fatal show ?thesis
                  by (simp add: fatal_is_last_def)
              next
                case True
                with fatal have clean: "\<forall>n e. Minimized n (Inl e) \<notin> set new"
                  by (simp add: fatal_is_last_Done)
                show ?thesis
                proof (cases "copyfile ?final protein_path st3")
                  case (Inl e)
                  with run protein lipid stretched box merged st2 ratio loop True
                  have "r = Raised e" and "st = st3"
                    by (simp_all add: embed_in_lipids_def Let_def)
                  with f3' e3 clean show ?thesis by simp
                next
                  case st4: (Inr st4)
                  with run protein lipid stretched box merged st2 ratio loop True
                  have fin: "r = Done" and st: "st = st4"
                    by (simp_all add: embed_in_lipids_def Let_def)
                  from copyfile_result [OF st4]
                  have copy: "fs st4 protein_path = fs st3 ?final" and some: "fs st3 ?final \<noteq> None"
                    and e4: "events st4 = events st3"
                    by simp_all
                  from notin gro_artifact [of folder_path steps] have "?final \<noteq> protein_path"
                    by auto
                  with st4 have "fs st4 ?final = fs st3 ?final"
                    by (auto simp: copyfile_def split: option.splits)
                  with copy some e4 e3 clean success True fin st steps show ?thesis
                    by (simp add: success_is_last_def)
                qed
              qed
            qed
          qed
        qed
      qed
    qed
    qed
  qed
qed

lemmas run_simps = embed_in_lipids_def example_env_def example_files_def protein_example_def
  lipid_example_def combined_example_def load_universe_def stretch_universes_def
  stretch_relative_def center_def stretch_atom_def pos_x_def pos_y_def pos_z_def
  stretch_boxsize_def split_ws_def is_space_def float_examples_def str_examples_def
  py_round_def round_half_even_def rjust_def merge_def write_universe_def change_boxsize_def
  stepwise_compression_def join_def raw_name_def str_nat.simps digit_char_def
  stretch_groups_def select_resname_def copyfile_def minimize_def overlap_once_def
  overlap_then_error_def minimized_copy_def overlap_marker_def error_marker_def py_split_def
  py_int_def int_strip_def is_int_space_def is_ascii_def byte_def py_digits_def is_digit_def
  digit_val_def select_bynum_def perturb_def
  position_of_def with_positions_def select_atoms_def LF_def Let_def eval_nat_numeral

theorem embed_in_lipids_commits_at_end_witness:
  "''protein.gro'' \<notin> artifact_paths ''work''
   \<and> fst (embed_in_lipids (example_env overlap_then_error) 3 ''protein.gro'' ''lipid.gro''
            ''work'' ''resname POPC'' ''1 1 1'' 2 (1 / 2) 1 example_files) = Raised fatal_error
   \<and> events (snd (embed_in_lipids (example_env overlap_then_error) 3 ''protein.gro''
            ''lipid.gro'' ''work'' ''resname POPC'' ''1 1 1'' 2 (1 / 2) 1 example_files))
       = [Minimized 1 (Inr (Some 5)), Perturbed 1 5, Minimized 1 (Inl fatal_error)]
   \<and> fs (snd (embed_in_lipids (example_env overlap_then_error) 3 ''protein.gro''
            ''lipid.gro'' ''work'' ''resname POPC'' ''1 1 1'' 2 (1 / 2) 1 example_files)) ''protein.gro''
       = Some (Gro protein_example)"
proof -
  let ?run = "embed_in_lipids (example_env overlap_then_error) 3 ''protein.gro'' ''lipid.gro''
            ''work'' ''resname POPC'' ''1 1 1'' 2 (1 / 2) 1 example_files"
  have notin: "''protein.gro'' \<notin> artifact_paths ''work''"
    by (simp add: artifact_paths_def join_def raw_name_def)
  have r: "fst ?run = Raised fatal_error"
    and ev: "events (snd ?run)
               = [Minimized 1 (Inr (Some 5)), Perturbed 1 5, Minimized 1 (Inl fatal_error)]"
    by (simp_all add: run_simps)
  have "?run = (fst ?run, snd ?run)"
    by simp
  from embed_in_lipids_commits_at_end [OF notin this] r
  have "fs (snd ?run) ''protein.gro'' = example_files ''protein.gro''"
    by simp
  then have "fs (snd ?run) ''protein.gro'' = Some (Gro protein_example)"
    by (simp add: example_files_def)
  with notin r ev show ?thesis by blast
qed

section \<open>The retry after an atom overlap\<close>

text \<open>
  The retry writes the moved snapshot to \<^verbatim>\<open>folder_path + f"embed_raw{n}.gro"\<close>, while
  the box size is applied to, and the minimization reads,
  \<^verbatim>\<open>join(folder_path, f"embed_raw{n}.gro")\<close>. The two paths are the same only for a
  folder path that is empty or ends with the separator.
\<close>

lemma stray_path_is_raw_path:
  "folder_path @ raw_name n = join folder_path (raw_name n)
     \<longleftrightarrow> folder_path = [] \<or> last folder_path = CHR ''/''"
  by (auto simp: join_def raw_name_def)

text \<open>
  C1, evaluated. The folder is \<^verbatim>\<open>work\<close>, there is one step, and the engine reports
  the overlap of atom 5 once. The controller moves atom 5 once and runs the
  minimization twice. But the moved snapshot (atom 5 at \<open>x = 1\<close>, and the box of
  the step before) goes to the file \<^verbatim>\<open>workembed_raw1.gro\<close> beside the folder; the
  raw structure of the step, \<^verbatim>\<open>work/embed_raw1.gro\<close>, still has atom 5 at
  \<open>x = 0\<close>, and that is the structure the second minimization runs on and the one
  that ends in the protein file. With the folder \<^verbatim>\<open>work/\<close> the same run rewrites
  the raw structure with the moved atom, and the second minimization runs on it.
\<close>

theorem embed_retry_misses_raw_artifact:
  "(case embed_in_lipids (example_env overlap_once) 3 ''protein.gro'' ''lipid.gro'' ''work''
            ''resname POPC'' ''1 1 1'' 2 (1 / 2) 1 example_files of
      (r, st) \<Rightarrow> r = Done \<and> calls st = 2
        \<and> events st = [Minimized 1 (Inr (Some 5)), Perturbed 1 5, Minimized 1 (Inr None)]
        \<and> fs st ''work/embed_raw1.gro'' = Some (Gro (combined_example 0 [5, 5, 10, 90, 90, 90]))
        \<and> fs st ''workembed_raw1.gro''
            = Some (Gro (combined_example 1 [20, 20, 10, 90, 90, 90]))
        \<and> fs st ''work/embed_1.gro'' = Some (Gro (combined_example 0 [5, 5, 10, 90, 90, 90]))
        \<and> fs st ''protein.gro'' = Some (Gro (combined_example 0 [5, 5, 10, 90, 90, 90])))
   \<and> (case embed_in_lipids (example_env overlap_once) 3 ''protein.gro'' ''lipid.gro'' ''work/''
            ''resname POPC'' ''1 1 1'' 2 (1 / 2) 1 example_files of
      (r, st) \<Rightarrow> r = Done \<and> calls st = 2
        \<and> events st = [Minimized 1 (Inr (Some 5)), Perturbed 1 5, Minimized 1 (Inr None)]
        \<and> fs st ''work/embed_raw1.gro'' = Some (Gro (combined_example 1 [5, 5, 10, 90, 90, 90]))
        \<and> fs st ''workembed_raw1.gro'' = None
        \<and> fs st ''work/embed_1.gro'' = Some (Gro (combined_example 1 [5, 5, 10, 90, 90, 90]))
        \<and> fs st ''protein.gro'' = Some (Gro (combined_example 1 [5, 5, 10, 90, 90, 90])))"
  by (simp add: run_simps)

end
